theory Spec2Isabelle
  imports Main "HOL-Library.Char_ord" "HOL-Library.List_Lexorder" "HOL-Library.Sublist" "HOL-Library.AList" "HOL-Library.Monad_Syntax"
begin

section \<open>The stack machine of chapter six (modules/06.js)\<close>

text \<open>
  \<open>Machine09\<close>, \<open>Machine10\<close> and \<open>Machine11\<close> keep the program as a list of
  closures over a JavaScript array, the data memory. The closures are modelled as a
  datatype of instructions, the memory as a record. Memory cells hold JavaScript values:
  the instructions modelled here produce numbers, \<open>undefined\<close> (a read outside the array)
  and \<open>NaN\<close> (arithmetic on \<open>undefined\<close>). Numbers are modelled as integers, which is
  exact as long as they stay below \<open>2^53\<close>; \<open>Divide\<close>, \<open>Input\<close> and the comparisons
  (floating point, host prompt, booleans) are left out.
\<close>

datatype val = Num int | Undefined | NaN

datatype instr =
    Add | Subtract | Multiply | Minus
  | Pop | Push int | Puts | Load nat | Store nat
  | Branch nat | Bzero nat | Print nat

text \<open>What the host function \<open>puts\<close> receives, call by call.\<close>

datatype printed =
    PutsArgs "val list"
  | TraceMemory "val list"
  | TraceInstr "val list" nat instr

record memory =
  cells :: "val list"
  pc :: nat
  continue :: "bool option"

text \<open>\<open>memory.at(-1)\<close> and \<open>memory.at(-2)\<close>: \<open>undefined\<close> outside the array.\<close>

definition at_minus :: "val list \<Rightarrow> nat \<Rightarrow> val" where
  "at_minus m k = (if k \<le> length m \<and> 0 < k then m ! (length m - k) else Undefined)"

text \<open>\<open>memory[addr]\<close> as a read.\<close>

definition read_cell :: "val list \<Rightarrow> nat \<Rightarrow> val" where
  "read_cell m a = (if a < length m then m ! a else Undefined)"

text \<open>\<open>memory[a] = v\<close>: JavaScript extends the array, the holes read as \<open>undefined\<close>.\<close>

definition write_cell :: "val list \<Rightarrow> nat \<Rightarrow> val \<Rightarrow> val list" where
  "write_cell m a v =
     (if a < length m then m[a := v]
      else m @ replicate (a - length m) Undefined @ [v])"

text \<open>\<open>memory.splice(-k, k, v)\<close> for \<open>k > 0\<close>: the last \<open>k\<close> cells (fewer if the
  array is shorter) are replaced by \<open>v\<close>.\<close>

definition splice_last :: "val list \<Rightarrow> nat \<Rightarrow> val \<Rightarrow> val list" where
  "splice_last m k v = take (length m - k) m @ [v]"

fun js_plus :: "val \<Rightarrow> val \<Rightarrow> val" where
  "js_plus (Num a) (Num b) = Num (a + b)"
| "js_plus _ _ = NaN"

fun js_minus :: "val \<Rightarrow> val \<Rightarrow> val" where
  "js_minus (Num a) (Num b) = Num (a - b)"
| "js_minus _ _ = NaN"

fun js_times :: "val \<Rightarrow> val \<Rightarrow> val" where
  "js_times (Num a) (Num b) = Num (a * b)"
| "js_times _ _ = NaN"

fun js_negate :: "val \<Rightarrow> val" where
  "js_negate (Num a) = Num (- a)"
| "js_negate _ = NaN"

fun truthy :: "val \<Rightarrow> bool" where
  "truthy (Num a) = (a \<noteq> 0)"
| "truthy _ = False"

text \<open>One instruction applied to the memory; the second component is what it prints.
  \<open>Print n\<close> is \<open>puts(... memory.splice(- n))\<close>: for \<open>n = 0\<close> the start index
  \<open>-0\<close> is \<open>0\<close> and the whole memory is removed and printed.\<close>

fun exec_instr :: "instr \<Rightarrow> memory \<Rightarrow> memory \<times> printed list" where
  "exec_instr Add m =
     (m\<lparr>cells := splice_last (cells m) 2 (js_plus (at_minus (cells m) 2) (at_minus (cells m) 1))\<rparr>, [])"
| "exec_instr Subtract m =
     (m\<lparr>cells := splice_last (cells m) 2 (js_minus (at_minus (cells m) 2) (at_minus (cells m) 1))\<rparr>, [])"
| "exec_instr Multiply m =
     (m\<lparr>cells := splice_last (cells m) 2 (js_times (at_minus (cells m) 2) (at_minus (cells m) 1))\<rparr>, [])"
| "exec_instr Minus m =
     (m\<lparr>cells := splice_last (cells m) 1 (js_negate (at_minus (cells m) 1))\<rparr>, [])"
| "exec_instr Pop m = (m\<lparr>cells := butlast (cells m)\<rparr>, [])"
| "exec_instr (Push r) m = (m\<lparr>cells := cells m @ [Num r]\<rparr>, [])"
| "exec_instr Puts m = (m, [PutsArgs [at_minus (cells m) 1]])"
| "exec_instr (Load a) m = (m\<lparr>cells := cells m @ [read_cell (cells m) a]\<rparr>, [])"
| "exec_instr (Store a) m = (m\<lparr>cells := write_cell (cells m) a (at_minus (cells m) 1)\<rparr>, [])"
| "exec_instr (Branch a) m = (m\<lparr>pc := a\<rparr>, [])"
| "exec_instr (Bzero a) m =
     (let v = at_minus (cells m) 1; m' = m\<lparr>cells := butlast (cells m)\<rparr>
      in (if truthy v then m' else m'\<lparr>pc := a\<rparr>, []))"
| "exec_instr (Print n) m =
     (let start = (if n = 0 then 0 else length (cells m) - n)
      in (m\<lparr>cells := take start (cells m)\<rparr>, [PutsArgs (drop start (cells m))]))"

text \<open>\<open>Machine11.trace(address)\<close>: \<open>true\<close> traces every instruction, a number traces
  while that cell is non-negative, anything else gives no trace function.\<close>

datatype trace_arg = TraceTrue | TraceAddr nat | TraceNone

fun trace :: "trace_arg \<Rightarrow> memory \<Rightarrow> nat \<Rightarrow> instr \<Rightarrow> printed list" where
  "trace TraceTrue m p i = [TraceInstr (cells m) p i]"
| "trace (TraceAddr a) m p i =
     (case read_cell (cells m) a of
        Num v \<Rightarrow> (if 0 \<le> v then [TraceInstr (cells m) p i] else [])
      | _ \<Rightarrow> [])"
| "trace TraceNone m p i = []"

text \<open>The step budget while the loop runs: a number, \<open>Infinity\<close>, or \<open>NaN\<close> (from
  \<open>undefined --\<close>). \<open>steps --\<close> yields the old value and decrements.\<close>

datatype budget = Finite int | Infinity | NoNumber

fun budget_truthy :: "budget \<Rightarrow> bool" where
  "budget_truthy (Finite k) = (k \<noteq> 0)"
| "budget_truthy Infinity = True"
| "budget_truthy NoNumber = False"

fun budget_dec :: "budget \<Rightarrow> budget" where
  "budget_dec (Finite k) = Finite (k - 1)"
| "budget_dec b = b"

text \<open>The \<open>while\<close> loop of \<open>StackMachine\<close>. It need not end (\<open>Branch 0\<close> under
  \<open>Infinity\<close>), so not returning is the value \<open>None\<close>.\<close>

partial_function (option) run_loop ::
  "instr list \<Rightarrow> trace_arg \<Rightarrow> budget \<Rightarrow> memory \<Rightarrow> printed list \<Rightarrow> (memory \<times> printed list) option"
where
  "run_loop code t steps m out =
     (if budget_truthy steps \<and> pc m < length code then
        (let p = pc m;
             (m', o1) = exec_instr (code ! p) (m\<lparr>pc := p + 1\<rparr>)
         in run_loop code t (budget_dec steps) m' (out @ o1 @ trace t m' p (code ! p)))
      else Some (m\<lparr>continue := Some (pc m < length code)\<rparr>, out))"

declare run_loop.simps [code]

text \<open>\<open>StackMachine (memory, steps)\<close> inside \<open>run (size, startAddr, traceAddr)\<close>. The
  closure variable \<open>t\<close> is passed in and returned; \<open>steps\<close> is \<open>None\<close> when the
  argument is missing.\<close>

definition StackMachine ::
  "instr list \<Rightarrow> nat \<Rightarrow> nat \<Rightarrow> trace_arg \<Rightarrow> trace_arg \<Rightarrow> memory option \<Rightarrow> int option
     \<Rightarrow> (trace_arg \<times> memory \<times> printed list) option"
where
  "StackMachine code memorySize startAddr traceAddr t mem steps =
     (case mem of
        None \<Rightarrow>
          (let stepping = (case steps of None \<Rightarrow> False | Some k \<Rightarrow> k \<noteq> 0);
               t' = (if stepping then TraceTrue else traceAddr);
               steps' = (if stepping then Finite (the steps) else Infinity);
               m = \<lparr>cells = replicate memorySize (Num 0), pc = startAddr, continue = None\<rparr>;
               out = (if t' = TraceNone then [] else [TraceMemory (cells m)])
           in map_option (\<lambda>(m', out'). (t', m', out')) (run_loop code t' steps' m out))
      | Some m \<Rightarrow>
          map_option (\<lambda>(m', out'). (t, m', out'))
            (run_loop code t (case steps of None \<Rightarrow> NoNumber | Some k \<Rightarrow> Finite k) m []))"

text \<open>The first call of the executable returned by \<open>run (size)\<close>: \<open>startAddr\<close> is 0,
  \<open>traceAddr\<close> is missing, and \<open>t\<close> is not yet set.\<close>

definition run :: "instr list \<Rightarrow> nat \<Rightarrow> memory option \<Rightarrow> int option
     \<Rightarrow> (trace_arg \<times> memory \<times> printed list) option" where
  "run code memorySize mem steps = StackMachine code memorySize 0 TraceNone TraceNone mem steps"

definition program_6 :: "instr list" where
  "program_6 = [Push 3, Push 4, Add, Print 1, Pop]"


section \<open>The BNF grammar model (bnf.js, base.js)\<close>

subsection \<open>Symbols, rules and their flags\<close>

text \<open>
  \<open>prec\<close> of a terminal is the object \<open>{ }\<close> until \<open>precedence()\<close> assigns
  \<open>level\<close> and \<open>assoc\<close> together; \<open>precedence()\<close> asserts that the associativity is one
  of \<open>%left\<close>, \<open>%right\<close>, \<open>%nonassoc\<close>. \<open>NT.#empty\<close> is declared without a value
  (\<open>undefined\<close>), the other flags start as \<open>false\<close>.
\<close>

datatype assoc = Left | Right | Nonassoc

record Precedence =
  level :: nat
  assoc :: assoc

record T =
  t_name :: string
  t_prec :: "Precedence option"
  used :: bool

text \<open>A terminal of a BNF grammar after \<open>check()\<close> has set its \<open>ord\<close>.\<close>

record BNF_T = T +
  t_ord :: nat

record NT =
  nt_name :: string
  follow :: "BNF_T list"
  nt_empty :: "bool option"
  nt_reached :: bool
  nt_finite :: bool

text \<open>Symbols are unique by kind and name (\<open>litsByName\<close>, \<open>tokensByName\<close>,
  \<open>ntsByName\<close>), so a reference to a symbol object is its kind and name. A rule's
  \<open>prec\<close> is \<open>null\<close> or a copy of the precedence of the terminal that provides it
  (\<open>Object.assign({}, { t: terminal }, terminal.prec)\<close>).\<close>

datatype sym = Lit_sym string | Token_sym string | NT_sym string

record Rule =
  nt :: string
  symbols :: "sym list"
  index :: nat
  prec :: "Precedence option"
  prec_t :: "T option"
  rule_reached :: bool
  rule_finite :: bool
  rule_reduced :: bool

text \<open>The setters. Each takes the assigned value and ignores it.\<close>

definition set_used :: "'v \<Rightarrow> T \<Rightarrow> T" where
  "set_used _ t = t\<lparr>used := True\<rparr>"

definition set_nt_empty :: "'v \<Rightarrow> NT \<Rightarrow> NT" where
  "set_nt_empty _ n = n\<lparr>nt_empty := Some True\<rparr>"

definition set_nt_reached :: "'v \<Rightarrow> NT \<Rightarrow> NT" where
  "set_nt_reached _ n = n\<lparr>nt_reached := True\<rparr>"

definition set_nt_finite :: "'v \<Rightarrow> NT \<Rightarrow> NT" where
  "set_nt_finite _ n = n\<lparr>nt_finite := True\<rparr>"

definition set_reached :: "'v \<Rightarrow> Rule \<Rightarrow> Rule" where
  "set_reached _ r = r\<lparr>rule_reached := True\<rparr>"

definition set_finite :: "'v \<Rightarrow> Rule \<Rightarrow> Rule" where
  "set_finite _ r = r\<lparr>rule_finite := True\<rparr>"

definition set_reduced :: "'v \<Rightarrow> Rule \<Rightarrow> Rule" where
  "set_reduced _ r = r\<lparr>rule_reduced := True\<rparr>"

text \<open>
  The flags are private fields (\<open>#used\<close>, \<open>#empty\<close>, ...): outside the class body they
  can only be read through the getter and written through the setter. So what can happen
  to the flags of the terminals, non-terminals and rules of a grammar during its lifetime
  is a sequence of assignments \<open>object.flag = value\<close>, for any value, and of creations of
  further objects.
\<close>

record Inventory =
  terminals :: "T list"
  nts :: "NT list"
  rules :: "Rule list"

datatype 'v flag_op =
    Assign_used nat 'v
  | Assign_nt_empty nat 'v
  | Assign_nt_reached nat 'v
  | Assign_nt_finite nat 'v
  | Assign_reached nat 'v
  | Assign_finite nat 'v
  | Assign_reduced nat 'v
  | New_T T
  | New_NT NT
  | New_Rule Rule

definition at_index :: "('a \<Rightarrow> 'a) \<Rightarrow> nat \<Rightarrow> 'a list \<Rightarrow> 'a list" where
  "at_index f i xs = (if i < length xs then xs[i := f (xs ! i)] else xs)"

fun apply_op :: "'v flag_op \<Rightarrow> Inventory \<Rightarrow> Inventory" where
  "apply_op (Assign_used i v) g = g\<lparr>terminals := at_index (set_used v) i (terminals g)\<rparr>"
| "apply_op (Assign_nt_empty i v) g = g\<lparr>nts := at_index (set_nt_empty v) i (nts g)\<rparr>"
| "apply_op (Assign_nt_reached i v) g = g\<lparr>nts := at_index (set_nt_reached v) i (nts g)\<rparr>"
| "apply_op (Assign_nt_finite i v) g = g\<lparr>nts := at_index (set_nt_finite v) i (nts g)\<rparr>"
| "apply_op (Assign_reached i v) g = g\<lparr>rules := at_index (set_reached v) i (rules g)\<rparr>"
| "apply_op (Assign_finite i v) g = g\<lparr>rules := at_index (set_finite v) i (rules g)\<rparr>"
| "apply_op (Assign_reduced i v) g = g\<lparr>rules := at_index (set_reduced v) i (rules g)\<rparr>"
| "apply_op (New_T t) g = g\<lparr>terminals := terminals g @ [t]\<rparr>"
| "apply_op (New_NT n) g = g\<lparr>nts := nts g @ [n]\<rparr>"
| "apply_op (New_Rule r) g = g\<lparr>rules := rules g @ [r]\<rparr>"

fun apply_ops :: "'v flag_op list \<Rightarrow> Inventory \<Rightarrow> Inventory" where
  "apply_ops [] g = g"
| "apply_ops (x # xs) g = apply_ops xs (apply_op x g)"

text \<open>The seven flags of the object with a given index, read as a JavaScript condition.\<close>

datatype flag = F_used | F_nt_empty | F_nt_reached | F_nt_finite | F_reached | F_finite | F_reduced

fun flag_set :: "flag \<Rightarrow> nat \<Rightarrow> Inventory \<Rightarrow> bool" where
  "flag_set F_used i g = (i < length (terminals g) \<and> used (terminals g ! i))"
| "flag_set F_nt_empty i g = (i < length (nts g) \<and> nt_empty (nts g ! i) = Some True)"
| "flag_set F_nt_reached i g = (i < length (nts g) \<and> nt_reached (nts g ! i))"
| "flag_set F_nt_finite i g = (i < length (nts g) \<and> nt_finite (nts g ! i))"
| "flag_set F_reached i g = (i < length (rules g) \<and> rule_reached (rules g ! i))"
| "flag_set F_finite i g = (i < length (rules g) \<and> rule_finite (rules g ! i))"
| "flag_set F_reduced i g = (i < length (rules g) \<and> rule_reduced (rules g ! i))"


subsection \<open>Filling in the messages of a state (\<open>State.advance\<close>)\<close>

text \<open>
  \<open>messages\<close> is an object whose keys are ordinal numbers of symbols; a value is
  \<open>null\<close> or a message, and a key can be absent (\<open>t in this.messages\<close> is false). It is
  modelled as an association list; \<open>for (let a in this.messages)\<close> enumerates the keys
  in ascending order, as for every object with integer keys. A message refers to its
  symbol by the ordinal number and to its rule by the rule's index in \<open>grammar.rules\<close>.
  The keys of \<open>rule.nt.follow\<close> are the ordinal numbers of the terminals stored under
  them; the list \<open>follow\<close> has the terminals in the order of \<open>for (let t in
  rule.nt.follow)\<close>.
\<close>

datatype verb = Accept | Error | Goto | Reduce | Shift

datatype info = Rule_info nat | State_info nat | No_info

record Message =
  verb :: verb
  symbol :: nat
  info :: info

datatype conflict =
    Shift_reduce BNF_T nat
  | Reduce_reduce BNF_T nat info

text \<open>A mark refers to its rule by the rule's index in \<open>grammar.rules\<close>.\<close>

record Mark =
  rule :: nat
  position :: nat

text \<open>
  What \<open>advance\<close> reads and writes: of the grammar the symbols, rules and follow sets,
  the ordinal number \<open>ord\<close> of every symbol, the counters \<open>sr\<close> and \<open>rr\<close> and the list
  \<open>states\<close>; of the state itself \<open>marks\<close>, \<open>messages\<close> and \<open>errors\<close>. Of a state in
  \<open>grammar.states\<close> only \<open>marks.slice(0, core)\<close> is read (by \<open>equals\<close>), so \<open>states\<close>
  is the list of these cores; the closure and the messages that \<open>grammar.state(next)\<close>
  computes for a new state are not part of the model. The state's number is only used
  in the text of the error messages.
\<close>

record LR =
  grammar :: Inventory
  sym_ord :: "sym \<Rightarrow> nat"
  marks :: "Mark list"
  messages :: "(nat \<times> Message option) list"
  sr :: nat
  rr :: nat
  state_errors :: "conflict list"
  states :: "Mark list list"


text \<open>\<open>grammar.reduce(f, rule)\<close>\<close>

definition reduce :: "BNF_T \<Rightarrow> Rule \<Rightarrow> Message" where
  "reduce f r = \<lparr>verb = Reduce, symbol = t_ord f, info = Rule_info (index r)\<rparr>"

text \<open>\<open>rule.reduced = true; this.messages[t] = this.grammar.reduce(f, rule)\<close>\<close>

definition install_reduce :: "BNF_T \<Rightarrow> Rule \<Rightarrow> LR \<Rightarrow> LR" where
  "install_reduce f r st =
     st\<lparr>grammar := apply_op (Assign_reduced (index r) True) (grammar st),
        messages := AList.update (t_ord f) (Some (reduce f r)) (messages st)\<rparr>"

text \<open>The body of \<open>for (let t in rule.nt.follow)\<close> for one terminal \<open>f\<close>.\<close>

definition reduce_on :: "Rule \<Rightarrow> BNF_T \<Rightarrow> LR \<Rightarrow> LR" where
  "reduce_on r f st =
     (case map_of (messages st) (t_ord f) of
        None \<Rightarrow> install_reduce f r st
      | Some None \<Rightarrow>
          (case (prec r, t_prec f) of
             (Some rp, Some fp) \<Rightarrow>
               if level fp < level rp then install_reduce f r st
               else if level rp < level fp then st
               else (case assoc rp of
                       Left \<Rightarrow> install_reduce f r st
                     | Right \<Rightarrow> st
                     | Nonassoc \<Rightarrow>
                         st\<lparr>grammar := apply_op (Assign_reduced (index r) True) (grammar st),
                            messages := AList.delete (t_ord f) (messages st)\<rparr>)
           | _ \<Rightarrow> st\<lparr>sr := sr st + 1,
                      state_errors := state_errors st @ [Shift_reduce f (index r)]\<rparr>)
      | Some (Some m) \<Rightarrow>
          (let r2 = info m;
               st' = st\<lparr>rr := rr st + 1,
                        state_errors := state_errors st @ [Reduce_reduce f (index r) r2]\<rparr>
           in case r2 of
                Rule_info i2 \<Rightarrow>
                  if index r < i2
                  then st'\<lparr>messages := AList.update (t_ord f) (Some (m\<lparr>info := Rule_info (index r)\<rparr>)) (messages st')\<rparr>
                  else st'
              | _ \<Rightarrow> st'))"












subsection \<open>Notions for the statements about \<open>advance\<close>\<close>


text \<open>The shift/reduce conflicts in a list of errors that are about the terminal with
  the ordinal number \<open>t\<close>.\<close>

fun conflict_on :: "nat \<Rightarrow> conflict \<Rightarrow> bool" where
  "conflict_on t (Shift_reduce f i) = (t_ord f = t)"
| "conflict_on t (Reduce_reduce f i r2) = False"

text \<open>Whether a conflict counts for \<open>grammar.sr\<close>.\<close>

fun shift_reduce :: "conflict \<Rightarrow> bool" where
  "shift_reduce (Shift_reduce f i) = True"
| "shift_reduce (Reduce_reduce f i r2) = False"





text \<open>The errors of the state have grown by \<open>new\<close>, and the counter \<open>sr\<close> by the number
  of shift/reduce conflicts among them.\<close>

definition grows :: "LR \<Rightarrow> LR \<Rightarrow> conflict list \<Rightarrow> bool" where
  "grows st st' new \<longleftrightarrow>
     state_errors st' = state_errors st @ new \<and> sr st' = sr st + length (filter shift_reduce new)"


text \<open>The first loop as one sequence of steps, one for each pair.\<close>

definition step :: "LR \<Rightarrow> nat \<times> BNF_T \<Rightarrow> LR" where
  "step st p = reduce_on (rules (grammar st) ! fst p) (snd p) st"



subsection \<open>Two grammars with the operator \<open>'<'\<close>\<close>














subsection \<open>The list builder of the LR parser (\<open>Parser.build\<close>, \<open>Base.Parser.act\<close>)\<close>

text \<open>
  The value stack holds JavaScript values: \<open>null\<close>, strings (the values of shifted
  tuples), arrays (the lists collected by a reduce) and whatever the actions return.
  A value of the last kind that is no array, string or \<open>null\<close> is \<open>JOther\<close>; it is
  taken not to be iterable.
\<close>

datatype 'a jsval = JNull | JStr string | JArr "'a jsval list" | JOther 'a

datatype 'a thrown = TypeError | Error_thrown 'a

text \<open>What calling an action method does: it returns a value, throws an \<open>Error\<close>
  object, or throws something else (a message string, by convention).\<close>

datatype 'a outcome = Returns "'a jsval" | Throws_Error 'a | Throws "'a jsval"

text \<open>An action method: \<open>method.length\<close> and its behaviour on the argument list.\<close>

record 'a action =
  arity :: nat
  body :: "'a jsval list \<Rightarrow> 'a outcome"

text \<open>The \<open>actions\<close> object of the parser: \<open>None\<close> when there is none, otherwise
  the function-valued properties of \<open>actions.constructor.prototype\<close> by name.\<close>

type_synonym 'a actions = "(string \<rightharpoonup> 'a action) option"

text \<open>The parser's \<open>values\<close> (here \<open>valuestack\<close>) and the grammar's error count.\<close>

record 'a Parser =
  valuestack :: "'a jsval list"
  errors :: nat

record Config =
  uniq :: string
  noargs :: bool
  ebnf :: bool

text \<open>\<open>... x\<close> in an argument list.\<close>

fun spread :: "'a jsval \<Rightarrow> 'a jsval list option" where
  "spread (JArr xs) = Some xs"
| "spread (JStr s) = Some (map (\<lambda>c. JStr [c]) s)"
| "spread JNull = None"
| "spread (JOther x) = None"

text \<open>\<open>call (target, method, ...args)\<close> and \<open>act (name, result)\<close> of the base parser;
  the traces on \<open>config.log\<close> are left out.\<close>

definition call :: "Config \<Rightarrow> 'a action \<Rightarrow> 'a jsval list \<Rightarrow> 'a Parser \<Rightarrow> 'a Parser \<times> 'a outcome" where
  "call cfg m args p =
     ((if arity m \<noteq> 0 \<and> \<not> noargs cfg \<and> arity m \<noteq> length args
       then p\<lparr>errors := errors p + 1\<rparr> else p),
      body m args)"

definition act :: "Config \<Rightarrow> 'a actions \<Rightarrow> string \<Rightarrow> 'a jsval list \<Rightarrow> 'a Parser \<Rightarrow> 'a Parser \<times> 'a outcome" where
  "act cfg actions name result p =
     (case actions of
        None \<Rightarrow> (p, Returns (JArr result))
      | Some methods \<Rightarrow>
          (case methods name of
             None \<Rightarrow> (p, Returns (JArr result))
           | Some m \<Rightarrow> call cfg m result p))"

text \<open>\<open>build (tuple, 'reduce', info)\<close>, with the rule \<open>info\<close> as \<open>r\<close>. \<open>this.values.splice(- len, len)\<close> removes the
  last \<open>len\<close> values (for \<open>len = 0\<close> none, as \<open>-0\<close> is \<open>0\<close>) and yields them as a
  list. The result is the new parser state and the value pushed and returned, or what is
  thrown.\<close>

definition build_reduce ::
  "Config \<Rightarrow> 'a actions \<Rightarrow> Rule \<Rightarrow> 'a Parser \<Rightarrow> 'a thrown + ('a Parser \<times> 'a jsval)" where
  "build_reduce cfg actions r p =
     (let len = length (symbols r);
          result = drop (length (valuestack p) - len) (valuestack p);
          p1 = p\<lparr>valuestack := take (length (valuestack p) - len) (valuestack p)\<rparr>
      in if ebnf cfg \<and> prefix (uniq cfg) (nt r) then
           if len = 2 \<and> symbols r ! 0 = NT_sym (nt r) then
             (case result of
                [] \<Rightarrow> Inl TypeError
              | r0 # rest \<Rightarrow>
                  (case spread r0 of
                     None \<Rightarrow> Inl TypeError
                   | Some xs \<Rightarrow>
                       Inr (p1\<lparr>valuestack := valuestack p1 @ [JArr (xs @ rest)]\<rparr>, JArr (xs @ rest))))
           else if len = 0 then Inr (p1\<lparr>valuestack := valuestack p1 @ [JNull]\<rparr>, JNull)
           else Inr (p1\<lparr>valuestack := valuestack p1 @ [JArr result]\<rparr>, JArr result)
         else
           (case act cfg actions (nt r) result p1 of
              (p2, Returns v) \<Rightarrow> Inr (p2\<lparr>valuestack := valuestack p2 @ [v]\<rparr>, v)
            | (p2, Throws_Error e) \<Rightarrow> Inl (Error_thrown e)
            | (p2, Throws e) \<Rightarrow>
                Inr (p2\<lparr>errors := errors p2 + 1, valuestack := valuestack p2 @ [JNull]\<rparr>, JNull)))"

section \<open>Literals and the scanner (base.js)\<close>

subsection \<open>\<open>Lit.unescape\<close>\<close>

text \<open>
  A JavaScript string is a sequence of UTF-16 code units, here natural numbers;
  \<open>js\<close> turns an Isabelle string of ASCII characters into one. \<open>39\<close> is the single
  quote and \<open>92\<close> the backslash.
\<close>

type_synonym jstring = "nat list"

definition js :: "string \<Rightarrow> jstring" where
  "js s = map of_char s"

definition quote :: nat where
  "quote = 39"

definition backslash :: nat where
  "backslash = 92"

text \<open>\<open>str.indexOf(c)\<close> for a string \<open>c\<close> of one code unit: \<open>None\<close> is \<open>-1\<close>.\<close>

fun indexOf :: "jstring \<Rightarrow> nat \<Rightarrow> nat option" where
  "indexOf [] c = None"
| "indexOf (x # xs) c = (if x = c then Some 0 else map_option Suc (indexOf xs c))"

definition hex_digits :: jstring where
  "hex_digits = js ''0123456789abcdef''"

text \<open>\<open>'bfnrtv\\\''\<close> and \<open>'\b\f\n\r\t\v\\\''\<close>\<close>

definition escape_letters :: jstring where
  "escape_letters = js ''bfnrtv'' @ [backslash, quote]"

definition escape_values :: jstring where
  "escape_values = [8, 12, 10, 13, 9, 11, backslash, quote]"

text \<open>\<open>parseInt(s.substr(i, n), 16)\<close> where the \<open>n\<close> code units are known to be in
  \<open>hex_digits\<close>.\<close>

definition parseInt16 :: "jstring \<Rightarrow> nat" where
  "parseInt16 ds = foldl (\<lambda>acc d. 16 * acc + the (indexOf hex_digits d)) 0 ds"

text \<open>The \<open>for\<close> loop of \<open>unescape\<close>, with the index \<open>i\<close> and the accumulated
  \<open>result\<close>.\<close>

function unescape_loop :: "jstring \<Rightarrow> nat \<Rightarrow> jstring \<Rightarrow> jstring" where
  "unescape_loop s i result =
     (if i < length s - 1 then
        (if s ! i \<noteq> backslash then unescape_loop s (i + 1) (result @ [s ! i])
         else if length s - 1 \<le> i + 1 then unescape_loop s (i + 1) (result @ [backslash])
         else (case indexOf escape_letters (s ! (i + 1)) of
                 Some c \<Rightarrow> unescape_loop s (i + 2) (result @ [escape_values ! c])
               | None \<Rightarrow>
                   if s ! (i + 1) = of_char CHR ''x'' then
                     (if i + 2 + 1 < length s - 1
                         \<and> indexOf hex_digits (s ! (i + 2)) \<noteq> None
                         \<and> indexOf hex_digits (s ! (i + 2 + 1)) \<noteq> None
                      then unescape_loop s (i + 2 + 2)
                             (result @ [parseInt16 (take 2 (drop (i + 2) s))])
                      else unescape_loop s (i + 2) (result @ [of_char CHR ''x'']))
                   else if s ! (i + 1) = of_char CHR ''u'' then
                     (if i + 2 + 3 < length s - 1
                         \<and> indexOf hex_digits (s ! (i + 2)) \<noteq> None
                         \<and> indexOf hex_digits (s ! (i + 2 + 1)) \<noteq> None
                         \<and> indexOf hex_digits (s ! (i + 2 + 2)) \<noteq> None
                         \<and> indexOf hex_digits (s ! (i + 2 + 3)) \<noteq> None
                      then unescape_loop s (i + 2 + 4)
                             (result @ [parseInt16 (take 4 (drop (i + 2) s))])
                      else unescape_loop s (i + 2) (result @ [of_char CHR ''u'']))
                   else unescape_loop s (i + 2) (result @ [s ! (i + 1)])))
      else result)"
  by pat_completeness auto
termination
  by (relation "measure (\<lambda>(s, i, result). length s - i)") auto

definition unescape :: "jstring \<Rightarrow> jstring" where
  "unescape s = unescape_loop s 1 []"

text \<open>
  The escapes in words, for comparison with the loop: what the text between the
  delimiters stands for. A backslash before one of \<open>b f n r t v \ '\<close> gives the
  character it names; \<open>\x\<close> before two, \<open>\u\<close> before four digits out of
  \<open>0123456789abcdef\<close> gives the character with that code; a backslash before anything
  else gives that character (for \<open>x\<close> and \<open>u\<close> without such digits: \<open>x\<close> and \<open>u\<close>);
  a backslash at the very end gives a backslash.
\<close>

definition is_hex :: "nat \<Rightarrow> bool" where
  "is_hex d = (d \<in> set hex_digits)"

fun unescaped :: "jstring \<Rightarrow> jstring" where
  "unescaped [] = []"
| "unescaped [c] = [c]"
| "unescaped (c # d # cs) =
     (if c \<noteq> backslash then c # unescaped (d # cs)
      else (case indexOf escape_letters d of
              Some k \<Rightarrow> escape_values ! k # unescaped cs
            | None \<Rightarrow>
                if d = of_char CHR ''x'' \<and> 2 \<le> length cs \<and> (\<forall>h \<in> set (take 2 cs). is_hex h)
                then parseInt16 (take 2 cs) # unescaped (drop 2 cs)
                else if d = of_char CHR ''u'' \<and> 4 \<le> length cs \<and> (\<forall>h \<in> set (take 4 cs). is_hex h)
                then parseInt16 (take 4 cs) # unescaped (drop 4 cs)
                else d # unescaped cs))"

declare unescape_loop.simps [simp del]

subsection \<open>The scanner (\<open>Scanner\<close>)\<close>

text \<open>
  A regular expression is taken as given by the host: for an input and a position in
  it, the length of the match that starts at this position, if there is one. A token's
  pattern is used with the same meaning inside the scanner's pattern and alone.
\<close>

type_synonym regexp = "jstring \<Rightarrow> nat \<Rightarrow> nat option"

text \<open>
  \<open>Scanner.escape\<close> writes a literal's value as a regular expression, character by
  character: a letter, a digit or \<open>_\<close> as itself, \<open>" \f \n \r \t \v \ '\<close> and the other
  printable characters of ASCII after a backslash, and every other character as \<open>\xHH\<close>
  or \<open>\uHHHH\<close>; each of these matches the character. The backspace (code 8) is written
  \<open>\b\<close>, which in a regular expression is the assertion of a word boundary and matches
  no character.
\<close>

datatype item = Match nat | Boundary

definition escape :: "jstring \<Rightarrow> item list" where
  "escape s = map (\<lambda>c. if c = 8 then Boundary else Match c) s"

text \<open>\<open>\w\<close>: a letter, a digit or \<open>_\<close>; and \<open>\b\<close> at a position of the input.\<close>

definition word :: "nat \<Rightarrow> bool" where
  "word c = ((97 \<le> c \<and> c \<le> 122) \<or> (65 \<le> c \<and> c \<le> 90) \<or> (48 \<le> c \<and> c \<le> 57) \<or> c = 95)"

definition boundary :: "jstring \<Rightarrow> nat \<Rightarrow> bool" where
  "boundary input p =
     ((0 < p \<and> p \<le> length input \<and> word (input ! (p - 1))) \<noteq> (p < length input \<and> word (input ! p)))"

fun items_match :: "item list \<Rightarrow> regexp" where
  "items_match [] input p = Some 0"
| "items_match (Match c # its) input p =
     (if p < length input \<and> input ! p = c then map_option Suc (items_match its input (Suc p)) else None)"
| "items_match (Boundary # its) input p =
     (if boundary input p then items_match its input p else None)"

definition literal_regexp :: "jstring \<Rightarrow> regexp" where
  "literal_regexp v = items_match (escape v)"

text \<open>A literal's \<open>value\<close> is computed by the constructor from the name, and neither can
  be assigned: \<open>this.#value = name.length ? this.unescape(name) : ''\<close>.\<close>

record Lit =
  lit_name :: jstring
  lit_used :: bool

definition lit_value :: "Lit \<Rightarrow> jstring" where
  "lit_value l = (if lit_name l \<noteq> [] then unescape (lit_name l) else [])"

text \<open>\<open>screen\<close> maps values to literals; \<open>None\<close> when the property is deleted.\<close>

record Token =
  token_name :: jstring
  pat :: regexp
  token_used :: bool
  screen :: "(jstring \<times> Lit) list option"

datatype terminal = A_Lit Lit | A_Token Token

text \<open>\<open>new Lit (name)\<close>\<close>

definition new_Lit :: "jstring \<Rightarrow> Lit" where
  "new_Lit n = \<lparr>lit_name = n, lit_used = False\<rparr>"

record Tuple =
  tuple_lineno :: nat
  tuple_t :: "terminal option"
  tuple_value :: jstring

record Factory =
  lits :: "Lit list"
  tokens :: "Token list"

record Scanner =
  scanner_terminals :: "terminal list"
  skip :: regexp

text \<open>The first position from \<open>from\<close> up to the end of the input where \<open>f\<close> finds
  something.\<close>

definition first_match :: "(nat \<Rightarrow> 'a option) \<Rightarrow> nat \<Rightarrow> nat \<Rightarrow> (nat \<times> 'a) option" where
  "first_match f from to =
     (case find (\<lambda>p. f p \<noteq> None) [from..<Suc to] of
        None \<Rightarrow> None
      | Some p \<Rightarrow> Some (p, the (f p)))"

text \<open>\<open>pat.exec(v)\<close> of a pattern without the flag \<open>g\<close>: the text \<open>match[0]\<close> of the
  leftmost match.\<close>

definition exec :: "regexp \<Rightarrow> jstring \<Rightarrow> jstring option" where
  "exec re v = map_option (\<lambda>(p, n). take n (drop p v)) (first_match (re v) 0 (length v))"

text \<open>\<open>Array.prototype.sort (compare)\<close> is stable; it is modelled as a stable
  insertion sort. For elements that \<open>compare\<close> orders totally the result does not depend
  on the algorithm. The comparison of the literals answers \<open>-1\<close> both ways for two
  literals of the same value (as \<open>'a'\<close> and \<open>'\x61'\<close>); their order is then up to the
  algorithm of the host, and the model keeps the order of creation.\<close>

fun insert_by :: "('a \<Rightarrow> 'a \<Rightarrow> int) \<Rightarrow> 'a \<Rightarrow> 'a list \<Rightarrow> 'a list" where
  "insert_by cmp x [] = [x]"
| "insert_by cmp x (y # ys) = (if cmp x y \<le> 0 then x # y # ys else y # insert_by cmp x ys)"

definition sort_by :: "('a \<Rightarrow> 'a \<Rightarrow> int) \<Rightarrow> 'a list \<Rightarrow> 'a list" where
  "sort_by cmp xs = foldr (insert_by cmp) xs []"

text \<open>The two comparison functions of the constructor. Objects are the same if their
  names are (the inventories are unique by name); \<open><\<close> on strings compares code units
  lexicographically.\<close>

definition compare_lits :: "Lit \<Rightarrow> Lit \<Rightarrow> int" where
  "compare_lits a b = (if lit_name a = lit_name b then 0 else if lit_value a < lit_value b then 1 else - 1)"

definition compare_tokens :: "Token \<Rightarrow> Token \<Rightarrow> int" where
  "compare_tokens a b = (if token_name a = token_name b then 0 else if token_name a < token_name b then - 1 else 1)"

text \<open>Screening: the \<open>reduce\<close> over the literals for one token. The state is the
  map built so far and the names of the literals marked \<open>screened\<close>; the assertion that
  fails is the value \<open>None\<close>.\<close>

fun screen_lits :: "Token \<Rightarrow> Lit list \<Rightarrow> (jstring \<times> Lit) list \<times> jstring list
    \<Rightarrow> ((jstring \<times> Lit) list \<times> jstring list) option" where
  "screen_lits token [] (m, screened) = Some (m, screened)"
| "screen_lits token (lit # ls) (m, screened) =
     (if exec (pat token) (lit_value lit) = Some (lit_value lit) then
        (if lit_name lit \<in> set screened then None
         else screen_lits token ls (AList.update (lit_value lit) lit m, lit_name lit # screened))
      else screen_lits token ls (m, screened))"

fun screen_tokens :: "Token list \<Rightarrow> Lit list \<Rightarrow> jstring list \<Rightarrow> (Token list \<times> jstring list) option" where
  "screen_tokens [] ls screened = Some ([], screened)"
| "screen_tokens (token # ts) ls screened =
     (case screen_lits token ls ([], screened) of
        None \<Rightarrow> None
      | Some (m, screened') \<Rightarrow>
          (case screen_tokens ts ls screened' of
             None \<Rightarrow> None
           | Some (ts', screened'') \<Rightarrow>
               Some (token\<lparr>screen := (if m = [] then None else Some m)\<rparr> # ts', screened'')))"

text \<open>The constructor: \<open>new Scanner (factory, skip, terminals)\<close>, with \<open>None\<close> for a
  missing list of terminals. The result \<open>None\<close> is the failed assertion.\<close>

definition new_Scanner :: "Factory \<Rightarrow> regexp \<Rightarrow> terminal list option \<Rightarrow> Scanner option" where
  "new_Scanner factory sk explicit =
     (case explicit of
        Some ts \<Rightarrow> Some \<lparr>scanner_terminals = ts, skip = sk\<rparr>
      | None \<Rightarrow>
          (let ls = sort_by compare_lits (filter (\<lambda>lit. lit_used lit \<and> lit_name lit \<noteq> []) (lits factory));
               ts = sort_by compare_tokens (filter (\<lambda>token. token_used token \<and> token_name token \<noteq> []) (tokens factory))
           in case screen_tokens ts ls [] of
                None \<Rightarrow> None
              | Some (ts', screened) \<Rightarrow>
                  Some \<lparr>scanner_terminals =
                           map A_Token ts' @ map A_Lit (filter (\<lambda>lit. lit_name lit \<notin> set screened) ls),
                        skip = sk\<rparr>))"

text \<open>The groups of the scanner's pattern, in order: \<open>skip\<close>, then one per terminal.\<close>

fun terminal_regexp :: "terminal \<Rightarrow> regexp" where
  "terminal_regexp (A_Lit l) = literal_regexp (lit_value l)"
| "terminal_regexp (A_Token k) = pat k"

definition pattern :: "Scanner \<Rightarrow> regexp list" where
  "pattern sc = skip sc # map terminal_regexp (scanner_terminals sc)"

text \<open>An alternation at one position: the first group that matches, with the length.\<close>

fun alternation :: "regexp list \<Rightarrow> nat \<Rightarrow> jstring \<Rightarrow> nat \<Rightarrow> (nat \<times> nat) option" where
  "alternation [] k input p = None"
| "alternation (re # res) k input p =
     (case re input p of Some n \<Rightarrow> Some (k, n) | None \<Rightarrow> alternation res (Suc k) input p)"

text \<open>\<open>this.pattern.exec(input)\<close> from \<open>lastIndex\<close>: where the match starts, which group
  matched (0 is \<open>skip\<close>) and the matched text \<open>m[0]\<close>.\<close>

definition pattern_exec :: "Scanner \<Rightarrow> jstring \<Rightarrow> nat \<Rightarrow> (nat \<times> nat \<times> jstring) option" where
  "pattern_exec sc input lastIndex =
     map_option (\<lambda>(p, k, n). (p, k, take n (drop p input)))
       (first_match (alternation (pattern sc) 0 input) lastIndex (length input))"

text \<open>\<open>nl\<close>: the number of \<open>\n\<close> in a string.\<close>

definition nl :: "jstring \<Rightarrow> nat" where
  "nl s = length (filter (\<lambda>c. c = 10) s)"

text \<open>
  \<open>t.screen[input]\<close>: \<open>screen\<close> is a plain object, so besides its own keys it has the
  properties that every object inherits from \<open>Object.prototype\<close>. Their values are
  functions and, for \<open>__proto__\<close>, an object: none is \<open>undefined\<close> or a terminal, and the
  assertion \<open>t === null || t instanceof T\<close> of \<open>tuple\<close> fails for them. (A screened
  literal with the value \<open>__proto__\<close> is not stored under a key but becomes the
  prototype of the map; the lookup of \<open>__proto__\<close> returns it all the same. What the map
  then inherits from the literal is not modelled.)
\<close>

definition object_prototype :: "jstring list" where
  "object_prototype =
     map js [''constructor'', ''__defineGetter__'', ''__defineSetter__'', ''hasOwnProperty'',
             ''__lookupGetter__'', ''__lookupSetter__'', ''isPrototypeOf'', ''propertyIsEnumerable'',
             ''toString'', ''valueOf'', ''__proto__'', ''toLocaleString'']"

datatype scan_error = Invalid_terminal

text \<open>A token match is replaced by the literal that \<open>screen\<close> has for the text.\<close>

fun screened_terminal :: "terminal \<Rightarrow> jstring \<Rightarrow> scan_error + terminal" where
  "screened_terminal (A_Lit l) matched = Inr (A_Lit l)"
| "screened_terminal (A_Token k) matched =
     (case screen k of
        None \<Rightarrow> Inr (A_Token k)
      | Some m \<Rightarrow>
          (case map_of m matched of
             Some lit \<Rightarrow> Inr (A_Lit lit)
           | None \<Rightarrow> if matched \<in> set object_prototype then Inl Invalid_terminal else Inr (A_Token k)))"

text \<open>The \<open>while\<close> loop of \<open>scan\<close>. The result \<open>Inl\<close> is the exception of a failed
  assertion. A pattern that matches the empty string does not move \<open>lastIndex\<close> and the
  loop does not end: the value is \<open>None\<close> then.\<close>

partial_function (option) scan_loop ::
  "Scanner \<Rightarrow> jstring \<Rightarrow> nat \<Rightarrow> nat \<Rightarrow> nat \<Rightarrow> Tuple list \<Rightarrow> (scan_error + Tuple list) option" where
  "scan_loop sc input lineno beginning lastIndex result =
     (if lastIndex < length input then
        (case pattern_exec sc input lastIndex of
           Some (idx, k, matched) \<Rightarrow>
             (let illegal = take (idx - beginning) (drop beginning input);
                  result1 = (if beginning < idx
                             then result @ [\<lparr>tuple_lineno = lineno, tuple_t = None, tuple_value = illegal\<rparr>]
                             else result);
                  lineno1 = (if beginning < idx then lineno + nl illegal else lineno)
              in if 0 < k \<and> matched \<noteq> [] then
                   (case screened_terminal (scanner_terminals sc ! (k - 1)) matched of
                      Inl e \<Rightarrow> Some (Inl e)
                    | Inr t \<Rightarrow>
                        scan_loop sc input (lineno1 + nl matched) (idx + length matched) (idx + length matched)
                          (result1 @ [\<lparr>tuple_lineno = lineno1, tuple_t = Some t, tuple_value = matched\<rparr>]))
                 else scan_loop sc input (lineno1 + nl matched) (idx + length matched) (idx + length matched)
                        result1)
         | None \<Rightarrow>
             Some (Inr (result @ [\<lparr>tuple_lineno = lineno, tuple_t = None, tuple_value = drop beginning input\<rparr>])))
      else Some (Inr result))"

declare scan_loop.simps [code]

definition scan :: "Scanner \<Rightarrow> jstring \<Rightarrow> (scan_error + Tuple list) option" where
  "scan sc input = scan_loop sc input 1 0 0 []"

text \<open>The \<open>$eof\<close> literal is the literal with the empty name.\<close>

fun is_eof :: "terminal \<Rightarrow> bool" where
  "is_eof (A_Lit l) = (lit_name l = [])"
| "is_eof (A_Token k) = False"

subsection \<open>The input of the BNF parser (\<open>Parser.parse\<close>, \<open>Parser.next\<close>)\<close>

text \<open>
  \<open>input\<close> is a list of tuples and \<open>null\<close>s, or \<open>false\<close> (here \<open>None\<close>) once it is
  consumed; a function as input is not modelled. \<open>grammar.tuple(0, grammar.lit())\<close> is
  the tuple for the end of input, with the grammar's literal \<open>$eof\<close>.
\<close>

record Lookahead =
  p_input :: "Tuple option list option"
  p_tuples :: "Tuple option list"
  p_index :: nat
  p_current :: "Tuple option"

definition eof_tuple :: "Lit \<Rightarrow> Tuple" where
  "eof_tuple eof = \<lparr>tuple_lineno = 0, tuple_t = Some (A_Lit eof), tuple_value = []\<rparr>"

text \<open>\<open>next ()\<close>; the result \<open>None\<close> is \<open>throw true\<close>, the request for more input. A
  literal is the grammar's \<open>$eof\<close> if its name is empty.\<close>

definition refill :: "Lookahead \<Rightarrow> Lookahead option" where
  "refill p =
     (if length (p_tuples p) \<le> p_index p then
        (case p_input p of
           None \<Rightarrow> None
         | Some ts \<Rightarrow> Some (p\<lparr>p_tuples := (if ts = [] then [None] else ts), p_input := None, p_index := 0\<rparr>))
      else Some p)"

definition next_tuple :: "Lit \<Rightarrow> Lookahead \<Rightarrow> Lookahead option" where
  "next_tuple eof p =
     (case refill p of
        None \<Rightarrow> None
      | Some p1 \<Rightarrow>
          (let cur = (case p_tuples p1 ! p_index p1 of None \<Rightarrow> eof_tuple eof | Some tu \<Rightarrow> tu);
               p2 = p1\<lparr>p_tuples := (p_tuples p1)[p_index p1 := Some cur], p_current := Some cur\<rparr>
           in Some (if (case tuple_t cur of None \<Rightarrow> False | Some t \<Rightarrow> is_eof t) then p2
                    else p2\<lparr>p_index := p_index p2 + 1\<rparr>)))"

text \<open>What \<open>parse (input)\<close> sets up for a string before its loop calls \<open>next\<close>:
  \<open>this.scanner.scan(input).concat(null)\<close> as \<open>input\<close>, no tuples, no current tuple.\<close>

definition parse_start :: "Tuple list \<Rightarrow> Lookahead" where
  "parse_start ts = \<lparr>p_input = Some (map Some ts @ [None]), p_tuples = [], p_index = 0, p_current = None\<rparr>"

text \<open>\<open>n\<close> calls of \<open>next\<close>.\<close>

fun nexts :: "nat \<Rightarrow> Lit \<Rightarrow> Lookahead \<Rightarrow> Lookahead option" where
  "nexts 0 eof p = Some p"
| "nexts (Suc n) eof p = (case next_tuple eof p of None \<Rightarrow> None | Some p' \<Rightarrow> nexts n eof p')"

section \<open>EBNF grammars and their translation to BNF\<close>

subsection \<open>The tree of an EBNF grammar (ebnf.js)\<close>

text \<open>
  A sequence holds literals, tokens, non-terminals and optional or repeatable lists of
  alternatives, and possibly the name of a terminal for \<open>%prec\<close>. Literals, tokens and
  non-terminals are unique by name and appear in the tree by name. Every \<open>Seq\<close>,
  \<open>Opt\<close> and \<open>Some\<close> object is taken to sit at one place of one rule, as the
  grammar parser builds them.
\<close>

datatype node =
    E_Lit string
  | E_Token string
  | E_NT string
  | E_Opt "seq list"
  | E_Some "seq list"
and seq = E_Seq "node list" "string option"

text \<open>What \<open>fromEBNF\<close> reads of an EBNF grammar: names and \<open>used\<close> flags of literals
  and tokens, the precedence levels (associativity and names of terminals), and the
  rules.\<close>

record EBNF =
  e_lits :: "(string \<times> bool) list"
  e_tokens :: "(string \<times> bool) list"
  e_levels :: "(assoc \<times> string list) list"
  e_rules :: "(string \<times> seq list) list"

subsection \<open>The factory methods of a BNF grammar (bnf.js, base.js)\<close>

text \<open>
  The configuration: the prefix \<open>uniq\<close>, the flag \<open>error\<close>, and the regular
  expressions \<open>lits\<close>, \<open>tokens\<close>, \<open>nts\<close> as predicates on names. A failed assertion
  or another exception is the result \<open>None\<close>. The assertions of \<open>add\<close> about a token's
  pattern are left out: the pattern is the one of the EBNF grammar's token, which passed
  them.
\<close>

record Names =
  cfg_uniq :: string
  cfg_error :: bool
  cfg_lits :: "string \<Rightarrow> bool"
  cfg_tokens :: "string \<Rightarrow> bool"
  cfg_nts :: "string \<Rightarrow> bool"

record Grammar =
  g_lits :: "T list"
  g_tokens :: "T list"
  g_nts :: "NT list"
  g_rules :: "Rule list"
  g_levels :: nat
  g_errors :: nat

text \<open>A number as a decimal string (\<open>'' + n\<close>).\<close>

definition digit :: "nat \<Rightarrow> char" where
  "digit d = char_of (of_char CHR ''0'' + d)"

function decimal :: "nat \<Rightarrow> string" where
  "decimal n = (if n < 10 then [digit n] else decimal (n div 10) @ [digit (n mod 10)])"
  by pat_completeness auto
termination
  by (relation "measure id") auto

declare decimal.simps [simp del]

definition byName :: "('a \<Rightarrow> string) \<Rightarrow> 'a list \<Rightarrow> string \<Rightarrow> 'a option" where
  "byName name_of xs n = find (\<lambda>x. name_of x = n) xs"

text \<open>\<open>lit (literal, used)\<close>\<close>

definition g_lit :: "Names \<Rightarrow> string \<Rightarrow> bool \<Rightarrow> Grammar \<Rightarrow> Grammar option" where
  "g_lit c literal u g =
     (case byName t_name (g_lits g) literal of
        Some l \<Rightarrow>
          Some (if u then g\<lparr>g_lits := map (\<lambda>x. if t_name x = literal then set_used True x else x) (g_lits g)\<rparr>
                else g)
      | None \<Rightarrow>
          if literal = [] \<or> cfg_lits c literal
          then Some (g\<lparr>g_lits := g_lits g @ [\<lparr>t_name = literal, t_prec = None, used = u\<rparr>]\<rparr>)
          else None)"

text \<open>\<open>token (name, pat, used)\<close>\<close>

definition g_token :: "Names \<Rightarrow> string \<Rightarrow> bool \<Rightarrow> Grammar \<Rightarrow> Grammar option" where
  "g_token c n u g =
     (case byName t_name (g_tokens g) n of
        Some t \<Rightarrow>
          Some (if u then g\<lparr>g_tokens := map (\<lambda>x. if t_name x = n then set_used True x else x) (g_tokens g)\<rparr>
                else g)
      | None \<Rightarrow>
          (let g1 = (if n \<noteq> [] \<and> byName nt_name (g_nts g) n \<noteq> None
                     then g\<lparr>g_errors := g_errors g + 1\<rparr> else g)
           in if n = [] \<or> cfg_tokens c n
              then Some (g1\<lparr>g_tokens := g_tokens g1 @ [\<lparr>t_name = n, t_prec = None, used = u\<rparr>]\<rparr>)
              else None))"

text \<open>\<open>nt (name)\<close> for a string \<open>name\<close>; the result \<open>nt\<close> is referred to by its name.\<close>

definition g_nt :: "Names \<Rightarrow> string \<Rightarrow> Grammar \<Rightarrow> Grammar option" where
  "g_nt c n g =
     (case byName nt_name (g_nts g) n of
        Some x \<Rightarrow> Some g
      | None \<Rightarrow>
          (let g1 = (if n \<noteq> [] \<and> byName t_name (g_tokens g) n \<noteq> None
                     then g\<lparr>g_errors := g_errors g + 1\<rparr> else g)
           in if n = [] \<or> prefix (cfg_uniq c) n \<or> cfg_nts c n
              then Some (g1\<lparr>g_nts := g_nts g1 @
                     [\<lparr>nt_name = n, follow = [], nt_empty = None, nt_reached = False, nt_finite = False\<rparr>]\<rparr>)
              else None))"

text \<open>\<open>nt ({})\<close>: the name is \<open>this.config.uniq + this.nts.length\<close>.\<close>

definition uniq_name :: "Names \<Rightarrow> Grammar \<Rightarrow> string" where
  "uniq_name c g = cfg_uniq c @ decimal (length (g_nts g))"

definition g_nt_uniq :: "Names \<Rightarrow> Grammar \<Rightarrow> (string \<times> Grammar) option" where
  "g_nt_uniq c g = map_option (\<lambda>g'. (uniq_name c g, g')) (g_nt c (uniq_name c g) g)"

text \<open>The terminal object behind a symbol of a rule.\<close>

fun terminal_of :: "Grammar \<Rightarrow> sym \<Rightarrow> T option" where
  "terminal_of g (Lit_sym n) = byName t_name (g_lits g) n"
| "terminal_of g (Token_sym n) = byName t_name (g_tokens g) n"
| "terminal_of g (NT_sym n) = None"

text \<open>\<open>symbols.forEach(s => { if (!(s instanceof NT) && s.prec.assoc) terminal = s; })\<close>:
  the last terminal of the right-hand side that has a precedence.\<close>

fun implicit_precedence :: "Grammar \<Rightarrow> sym list \<Rightarrow> T option \<Rightarrow> T option" where
  "implicit_precedence g [] terminal = terminal"
| "implicit_precedence g (s # ss) terminal =
     implicit_precedence g ss
       (case terminal_of g s of
          Some t \<Rightarrow> (if t_prec t \<noteq> None then Some t else terminal)
        | None \<Rightarrow> terminal)"

text \<open>\<open>rule (nt, symbols, terminal)\<close>; \<open>nt\<close> is given by its name.\<close>

definition g_rule :: "string \<Rightarrow> sym list \<Rightarrow> T option \<Rightarrow> Grammar \<Rightarrow> Grammar" where
  "g_rule n syms explicit g =
     (let (terminal, g1) =
            (case explicit of
               None \<Rightarrow> (implicit_precedence g syms None, g)
             | Some t \<Rightarrow> (if t_prec t = None then (None, g\<lparr>g_errors := g_errors g + 1\<rparr>)
                          else (Some t, g)));
          r = \<lparr>nt = n, symbols = syms, index = length (g_rules g1),
               prec = (case terminal of None \<Rightarrow> None | Some t \<Rightarrow> t_prec t),
               prec_t = terminal,
               rule_reached = False, rule_finite = False, rule_reduced = False\<rparr>;
          g2 = (if g_rules g1 \<noteq> [] \<and> syms = []
                then g1\<lparr>g_nts := map (\<lambda>x. if nt_name x = n then set_nt_empty True x else x) (g_nts g1)\<rparr>
                else g1)
      in g2\<lparr>g_rules := g_rules g2 @ [r]\<rparr>)"

text \<open>\<open>precedence (assoc, terminals)\<close>, the terminals given as symbols; \<open>None\<close> in the
  list is a terminal that \<open>fromEBNF\<close> did not find by name (\<open>undefined\<close>, which fails
  the first assertion).\<close>

fun set_precedence :: "Precedence \<Rightarrow> sym \<Rightarrow> Grammar \<Rightarrow> Grammar option" where
  "set_precedence p (Lit_sym n) g =
     (case byName t_name (g_lits g) n of
        None \<Rightarrow> None
      | Some t \<Rightarrow>
          if t_prec t \<noteq> None then None
          else Some (g\<lparr>g_lits := map (\<lambda>x. if t_name x = n then x\<lparr>t_prec := Some p\<rparr> else x) (g_lits g)\<rparr>))"
| "set_precedence p (Token_sym n) g =
     (case byName t_name (g_tokens g) n of
        None \<Rightarrow> None
      | Some t \<Rightarrow>
          if t_prec t \<noteq> None then None
          else Some (g\<lparr>g_tokens := map (\<lambda>x. if t_name x = n then x\<lparr>t_prec := Some p\<rparr> else x) (g_tokens g)\<rparr>))"
| "set_precedence p (NT_sym n) g = None"

fun set_precedences :: "Precedence \<Rightarrow> sym list \<Rightarrow> Grammar \<Rightarrow> Grammar option" where
  "set_precedences p [] g = Some g"
| "set_precedences p (s # ss) g = do { g1 \<leftarrow> set_precedence p s g; set_precedences p ss g1 }"

definition g_precedence :: "assoc \<Rightarrow> sym option list \<Rightarrow> Grammar \<Rightarrow> Grammar option" where
  "g_precedence a ts g =
     (if None \<in> set ts then None
      else if ts = [] then Some g
      else do {
        g1 \<leftarrow> set_precedences \<lparr>level = g_levels g, assoc = a\<rparr> (map the ts) g;
        Some (g1\<lparr>g_levels := g_levels g1 + 1\<rparr>)
      })"

text \<open>\<open>new Grammar (null, null, config)\<close>: rule zero for \<open>$accept\<close>, the literal
  \<open>$eof\<close> (used) and the token \<open>$error\<close>.\<close>

definition new_Grammar :: Grammar where
  "new_Grammar =
     \<lparr>g_lits = [\<lparr>t_name = [], t_prec = None, used = True\<rparr>],
      g_tokens = [\<lparr>t_name = [], t_prec = None, used = False\<rparr>],
      g_nts = [\<lparr>nt_name = [], follow = [], nt_empty = None, nt_reached = False, nt_finite = False\<rparr>],
      g_rules = [\<lparr>nt = [], symbols = [], index = 0, prec = None, prec_t = None,
                  rule_reached = False, rule_finite = False, rule_reduced = False\<rparr>],
      g_levels = 0, g_errors = 0\<rparr>"

subsection \<open>\<open>Grammar.fromEBNF\<close>\<close>

text \<open>
  \<open>seq\<close> translates the nodes of a sequence into symbols, \<open>opt\<close> and \<open>some\<close> create
  the non-terminals and rules for \<open>[ ... ]\<close> and \<open>{ ... }\<close>. \<open>translate_node\<close> is the
  body of the \<open>reduce\<close> in \<open>seq\<close> for one node, with \<open>opt\<close> and \<open>some\<close> in the cases
  \<open>E_Opt\<close> and \<open>E_Some\<close>; \<open>alternatives n ss\<close> is
  \<open>ss.forEach(s => g.rule(n, seq(s)))\<close>.
\<close>

fun translate_node :: "Names \<Rightarrow> node \<Rightarrow> Grammar \<Rightarrow> (sym \<times> Grammar) option"
  and translate_seq :: "Names \<Rightarrow> node list \<Rightarrow> Grammar \<Rightarrow> (sym list \<times> Grammar) option"
  and alternatives :: "Names \<Rightarrow> string \<Rightarrow> seq list \<Rightarrow> Grammar \<Rightarrow> Grammar option"
where
  "translate_node c (E_Lit n) g = do { g1 \<leftarrow> g_lit c n False g; Some (Lit_sym n, g1) }"
| "translate_node c (E_Token n) g = do { g1 \<leftarrow> g_token c n False g; Some (Token_sym n, g1) }"
| "translate_node c (E_NT n) g = do { g1 \<leftarrow> g_nt c n g; Some (NT_sym n, g1) }"
| "translate_node c (E_Opt ss) g = do {
     (n, g1) \<leftarrow> g_nt_uniq c g;
     g2 \<leftarrow> alternatives c n ss (g_rule n [] None g1);
     Some (NT_sym n, g2)
   }"
| "translate_node c (E_Some ss) g = do {
     (n, g1) \<leftarrow> g_nt_uniq c g;
     (n1, g2) \<leftarrow> g_nt_uniq c g1;
     g3 \<leftarrow> alternatives c n1 ss g2;
     let g4 = g_rule n [NT_sym n, NT_sym n1] None (g_rule n [NT_sym n1] None g3);
     if cfg_error c then do {
       g5 \<leftarrow> g_token c [] False g4;
       Some (NT_sym n, g_rule n [NT_sym n, Token_sym []] None (g_rule n [Token_sym []] None g5))
     } else Some (NT_sym n, g4)
   }"
| "translate_seq c [] g = Some ([], g)"
| "translate_seq c (x # xs) g = do {
     (s, g1) \<leftarrow> translate_node c x g;
     (ss, g2) \<leftarrow> translate_seq c xs g1;
     Some (s # ss, g2)
   }"
| "alternatives c n [] g = Some g"
| "alternatives c n (E_Seq xs t # ss) g = do {
     (syms, g1) \<leftarrow> translate_seq c xs g;
     alternatives c n ss (g_rule n syms None g1)
   }"

text \<open>The rules of one EBNF rule: a sequence with \<open>%prec\<close> passes the terminal of that
  name, if the new grammar has one, to \<open>g.rule\<close>.\<close>

definition prec_terminal :: "Grammar \<Rightarrow> string option \<Rightarrow> T option" where
  "prec_terminal g t =
     (case t of
        None \<Rightarrow> None
      | Some n \<Rightarrow> (case byName t_name (g_lits g) n of
                     Some l \<Rightarrow> Some l
                   | None \<Rightarrow> byName t_name (g_tokens g) n))"

fun rule_seqs :: "Names \<Rightarrow> string \<Rightarrow> seq list \<Rightarrow> Grammar \<Rightarrow> Grammar option" where
  "rule_seqs c n [] g = Some g"
| "rule_seqs c n (E_Seq xs t # ss) g = do {
     (syms, g1) \<leftarrow> translate_seq c xs g;
     rule_seqs c n ss (g_rule n syms (prec_terminal g t) g1)
   }"

fun translate_rules :: "Names \<Rightarrow> (string \<times> seq list) list \<Rightarrow> Grammar \<Rightarrow> Grammar option" where
  "translate_rules c [] g = Some g"
| "translate_rules c ((n, ss) # rs) g = do {
     g1 \<leftarrow> g_nt c n g;
     g2 \<leftarrow> rule_seqs c n ss g1;
     translate_rules c rs g2
   }"

fun lits_used :: "Names \<Rightarrow> (string \<times> bool) list \<Rightarrow> Grammar \<Rightarrow> Grammar option" where
  "lits_used c [] g = Some g"
| "lits_used c ((n, u) # ls) g = (if u then do { g1 \<leftarrow> g_lit c n True g; lits_used c ls g1 } else lits_used c ls g)"

fun tokens_used :: "Names \<Rightarrow> (string \<times> bool) list \<Rightarrow> Grammar \<Rightarrow> Grammar option" where
  "tokens_used c [] g = Some g"
| "tokens_used c ((n, u) # ts) g = (if u then do { g1 \<leftarrow> g_token c n True g; tokens_used c ts g1 } else tokens_used c ts g)"

definition named_terminal :: "Grammar \<Rightarrow> string \<Rightarrow> sym option" where
  "named_terminal g n =
     (if byName t_name (g_lits g) n \<noteq> None then Some (Lit_sym n)
      else if byName t_name (g_tokens g) n \<noteq> None then Some (Token_sym n)
      else None)"

fun levels :: "(assoc \<times> string list) list \<Rightarrow> Grammar \<Rightarrow> Grammar option" where
  "levels [] g = Some g"
| "levels ((a, ts) # ls) g = do { g1 \<leftarrow> g_precedence a (map (named_terminal g) ts) g; levels ls g1 }"

text \<open>\<open>fromEBNF (ebnf, config)\<close> up to the call of \<open>g.check(start)\<close>, which computes the
  sets and the states and leaves the rules but rule zero as they are.\<close>

definition fromEBNF :: "EBNF \<Rightarrow> Names \<Rightarrow> Grammar option" where
  "fromEBNF e c = do {
     g1 \<leftarrow> lits_used c (e_lits e) new_Grammar;
     g2 \<leftarrow> tokens_used c (e_tokens e) g1;
     g3 \<leftarrow> levels (e_levels e) g2;
     g4 \<leftarrow> (case e_rules e of [] \<Rightarrow> None | (n, ss) # rs \<Rightarrow> g_nt c n g3);
     translate_rules c (e_rules e) g4
   }"

subsection \<open>Notions for the rules that \<open>fromEBNF\<close> creates\<close>

text \<open>The names of the non-terminals of a grammar, in the order of \<open>nts\<close>, and its rules as
  pairs of the name of the left-hand side and the right-hand side; the right-hand sides
  of the rules of one non-terminal.\<close>

abbreviation names :: "Grammar \<Rightarrow> string list" where
  "names g \<equiv> map nt_name (g_nts g)"

abbreviation productions :: "Grammar \<Rightarrow> (string \<times> sym list) list" where
  "productions g \<equiv> map (\<lambda>r. (nt r, symbols r)) (g_rules g)"

definition rules_of :: "string \<Rightarrow> Grammar \<Rightarrow> sym list list" where
  "rules_of n g = map symbols (filter (\<lambda>r. nt r = n) (g_rules g))"

definition well_named :: "Grammar \<Rightarrow> bool" where
  "well_named g \<longleftrightarrow> set (map nt (g_rules g)) \<subseteq> set (names g)"

text \<open>Reading a decimal string back; the inverse of \<open>decimal\<close>.\<close>

definition undecimal :: "string \<Rightarrow> nat" where
  "undecimal s = foldl (\<lambda>a ch. 10 * a + (of_char ch - 48)) 0 s"

text \<open>A name that \<open>nt ({})\<close> creates when the grammar has \<open>k\<close> non-terminals, for some
  \<open>k\<close> from \<open>lo\<close> up to \<open>hi - 1\<close>. In a grammar that satisfies \<open>uniq_inv\<close> every
  non-terminal whose name starts with the prefix \<open>uniq\<close> has been created by \<open>nt ({})\<close>
  at a smaller size of \<open>nts\<close>.\<close>

definition generated :: "Names \<Rightarrow> nat \<Rightarrow> nat \<Rightarrow> string \<Rightarrow> bool" where
  "generated c lo hi n \<longleftrightarrow> (\<exists>k. lo \<le> k \<and> k < hi \<and> n = cfg_uniq c @ decimal k)"

definition uniq_inv :: "Names \<Rightarrow> Grammar \<Rightarrow> bool" where
  "uniq_inv c g \<longleftrightarrow>
     (\<forall>n \<in> set (names g). prefix (cfg_uniq c) n \<longrightarrow> generated c 0 (length (g_nts g)) n)"

text \<open>An EBNF tree none of whose non-terminals has a name that starts with the prefix
  \<open>uniq\<close>.\<close>

fun plain_node :: "Names \<Rightarrow> node \<Rightarrow> bool" and plain_seq :: "Names \<Rightarrow> seq \<Rightarrow> bool" where
  "plain_node c (E_Lit n) = True"
| "plain_node c (E_Token n) = True"
| "plain_node c (E_NT n) = (\<not> prefix (cfg_uniq c) n)"
| "plain_node c (E_Opt ss) = list_all (plain_seq c) ss"
| "plain_node c (E_Some ss) = list_all (plain_seq c) ss"
| "plain_seq c (E_Seq xs t) = list_all (plain_node c) xs"

fun seq_nodes :: "seq \<Rightarrow> node list" where
  "seq_nodes (E_Seq xs t) = xs"

text \<open>The symbol that stands for a node in a right-hand side: the terminal or non-terminal of
  the same name, and a non-terminal with a generated name for \<open>[ ... ]\<close> and
  \<open>{ ... }\<close>.\<close>

fun node_sym :: "Names \<Rightarrow> node \<Rightarrow> sym \<Rightarrow> bool" where
  "node_sym c (E_Lit n) s = (s = Lit_sym n)"
| "node_sym c (E_Token n) s = (s = Token_sym n)"
| "node_sym c (E_NT n) s = (s = NT_sym n)"
| "node_sym c (E_Opt ss) s = (\<exists>u. s = NT_sym u \<and> prefix (cfg_uniq c) u)"
| "node_sym c (E_Some ss) s = (\<exists>u. s = NT_sym u \<and> prefix (cfg_uniq c) u)"

definition seq_syms :: "Names \<Rightarrow> seq \<Rightarrow> sym list \<Rightarrow> bool" where
  "seq_syms c sq syms = list_all2 (node_sym c) (seq_nodes sq) syms"

text \<open>The grammar \<open>g'\<close> is \<open>g\<close> with the rules \<open>rs\<close> added at the end; the names of their
  left-hand sides are generated between \<open>g\<close> and \<open>g'\<close>.\<close>

definition appended :: "Names \<Rightarrow> Grammar \<Rightarrow> Grammar \<Rightarrow> (string \<times> sym list) list \<Rightarrow> bool" where
  "appended c g g' rs \<longleftrightarrow>
     uniq_inv c g' \<and> length (g_nts g) \<le> length (g_nts g') \<and> productions g' = productions g @ rs"

definition gen_between :: "Names \<Rightarrow> Grammar \<Rightarrow> Grammar \<Rightarrow> string \<Rightarrow> bool" where
  "gen_between c g g' n = generated c (length (g_nts g)) (length (g_nts g')) n"

definition extended :: "Names \<Rightarrow> Grammar \<Rightarrow> Grammar \<Rightarrow> bool" where
  "extended c g g' \<longleftrightarrow> (\<exists>rs. appended c g g' rs \<and> (\<forall>r \<in> set rs. gen_between c g g' (fst r)))"

definition alternatives_added :: "Names \<Rightarrow> string \<Rightarrow> seq list \<Rightarrow> Grammar \<Rightarrow> Grammar \<Rightarrow> bool" where
  "alternatives_added c n ss g g' \<longleftrightarrow>
     (\<exists>rs symss. appended c g g' rs
        \<and> filter (\<lambda>r. fst r = n) rs = map (Pair n) symss
        \<and> list_all2 (seq_syms c) ss symss
        \<and> (\<forall>r \<in> set rs. fst r = n \<or> gen_between c g g' (fst r)))"

subsection \<open>Example grammars\<close>

text \<open>The default prefix \<open>$-\<close>, no \<open>error\<close> mode, every name admitted.\<close>

definition names_1 :: Names where
  "names_1 = \<lparr>cfg_uniq = ''$-'', cfg_error = False, cfg_lits = (\<lambda>n. True),
               cfg_tokens = (\<lambda>n. True), cfg_nts = (\<lambda>n. True)\<rparr>"

text \<open>The BNF grammar under construction for \<open>list: Number [{ ',' Number }];\<close> when the
  right-hand side of the rule is about to be translated.\<close>

definition grammar_list :: Grammar where
  "grammar_list =
     \<lparr>g_lits = [\<lparr>t_name = [], t_prec = None, used = True\<rparr>,
                \<lparr>t_name = '','', t_prec = None, used = True\<rparr>],
      g_tokens = [\<lparr>t_name = [], t_prec = None, used = False\<rparr>,
                  \<lparr>t_name = ''Number'', t_prec = None, used = True\<rparr>],
      g_nts = [\<lparr>nt_name = [], follow = [], nt_empty = None, nt_reached = False, nt_finite = False\<rparr>,
               \<lparr>nt_name = ''list'', follow = [], nt_empty = None, nt_reached = False, nt_finite = False\<rparr>],
      g_rules = [\<lparr>nt = [], symbols = [], index = 0, prec = None, prec_t = None,
                  rule_reached = False, rule_finite = False, rule_reduced = False\<rparr>],
      g_levels = 0, g_errors = 0\<rparr>"

text \<open>The EBNF grammar \<open>$-2: 'a' [ 'b' ];\<close> whose only non-terminal has a name that
  \<open>nt ({})\<close> creates.\<close>

definition ebnf_bad :: EBNF where
  "ebnf_bad = \<lparr>e_lits = [(''a'', True), (''b'', True)], e_tokens = [], e_levels = [],
               e_rules = [(''$-2'', [E_Seq [E_Lit ''a'', E_Opt [E_Seq [E_Lit ''b''] None]] None])]\<rparr>"

section \<open>Properties of the stack machine\<close>

text \<open>
  Claim C8. For the program \<open>Push 3; Push 4; Add; Print 1; Pop\<close> the executable
  returned by \<open>run(0)\<close>, called without memory and without a step budget, runs to the
  end and its only output is \<open>puts(7)\<close>; called with no memory and \<open>steps = 2\<close> it
  stops after the second \<open>Push\<close> with the memory \<open>[3, 4]\<close>, the program counter 2
  and \<open>continue = true\<close> (having traced the initial memory and both instructions).
\<close>

theorem C8_run_program:
  "run program_6 0 None None =
     Some (TraceNone, \<lparr>cells = [], pc = 5, continue = Some False\<rparr>, [PutsArgs [Num 7]])
   \<and> run program_6 0 None (Some 2) =
     Some (TraceTrue, \<lparr>cells = [Num 3, Num 4], pc = 2, continue = Some True\<rparr>,
           [TraceMemory [], TraceInstr [Num 3] 0 (Push 3), TraceInstr [Num 3, Num 4] 1 (Push 4)])"
  by (simp add: run_def StackMachine_def program_6_def run_loop.simps at_minus_def splice_last_def)

section \<open>Properties of the BNF grammar model\<close>

lemma apply_op_keeps_flag: "flag_set f i g \<Longrightarrow> flag_set f i (apply_op x g)"
  by (cases x; cases f)
     (auto simp: at_index_def nth_list_update nth_append set_used_def set_nt_empty_def
        set_nt_reached_def set_nt_finite_def set_reached_def set_finite_def set_reduced_def)

lemma apply_ops_keeps_flag: "flag_set f i g \<Longrightarrow> flag_set f i (apply_ops xs g)"
  by (induction xs arbitrary: g) (auto simp: apply_op_keeps_flag)

text \<open>
  Claim C9. Each of the seven setters ignores the assigned value and sets its flag, and
  a flag that is set stays set under every sequence of assignments to flags and creations
  of symbols and rules.
\<close>

theorem C9_flags_monotone:
  "used (set_used v t) \<and> nt_empty (set_nt_empty v n) = Some True
   \<and> nt_reached (set_nt_reached v n) \<and> nt_finite (set_nt_finite v n)
   \<and> rule_reached (set_reached v r) \<and> rule_finite (set_finite v r)
   \<and> rule_reduced (set_reduced v r)
   \<and> (flag_set f i g \<longrightarrow> flag_set f i (apply_ops ops g))"
  by (simp add: set_used_def set_nt_empty_def set_nt_reached_def set_nt_finite_def
        set_reached_def set_finite_def set_reduced_def apply_ops_keeps_flag)

definition inventory_1 :: Inventory where
  "inventory_1 =
     \<lparr>terminals = [\<lparr>t_name = [], t_prec = None, used = True\<rparr>],
      nts = [\<lparr>nt_name = [], follow = [], nt_empty = None, nt_reached = False, nt_finite = False\<rparr>],
      rules = [\<lparr>nt = [], symbols = [], index = 0, prec = None, prec_t = None,
                rule_reached = False, rule_finite = False, rule_reduced = True\<rparr>]\<rparr>"

theorem C9_flags_monotone_witness:
  "flag_set F_reduced 0 inventory_1
   \<and> flag_set F_reduced 0
        (apply_ops [Assign_reduced 0 False, Assign_nt_empty 0 False, New_Rule (rules inventory_1 ! 0),
                    Assign_reduced 1 False] inventory_1)
   \<and> flag_set F_nt_empty 0 (apply_ops [Assign_nt_empty 0 False] inventory_1)"
  using C9_flags_monotone [of False "terminals inventory_1 ! 0" "nts inventory_1 ! 0"
      "rules inventory_1 ! 0" F_reduced 0 inventory_1
      "[Assign_reduced 0 False, Assign_nt_empty 0 False, New_Rule (rules inventory_1 ! 0),
        Assign_reduced 1 False]"]
  by (simp add: inventory_1_def at_index_def set_nt_empty_def)

subsection \<open>The messages of a state\<close>

lemma find_Some_set: "find P xs = Some x \<Longrightarrow> P x \<and> x \<in> set xs"
  by (induction xs) (auto split: if_splits)














lemma grows_refl: "grows st st []"
  by (simp add: grows_def)

lemma grows_trans: "grows st st' n1 \<Longrightarrow> grows st' st'' n2 \<Longrightarrow> grows st st'' (n1 @ n2)"
  by (simp add: grows_def)




lemma reduce_on_grows:
  "\<exists>new. grows st (reduce_on r f st) new \<and> (t \<noteq> t_ord f \<longrightarrow> filter (conflict_on t) new = [])"
  by (auto simp: reduce_on_def install_reduce_def Let_def grows_def
           split: option.splits assoc.splits info.splits)





lemma steps_grows: "\<exists>new. grows st (foldl step st ps) new"
proof (induction ps arbitrary: st)
  case Nil
  show ?case using grows_refl by auto
next
  case (Cons p ps)
  from reduce_on_grows [of st "rules (grammar st) ! fst p" "snd p" 0]
  obtain n1 where "grows st (step st p) n1" by (auto simp: step_def)
  moreover from Cons [of "step st p"] obtain n2 where "grows (step st p) (foldl step (step st p) ps) n2"
    by auto
  ultimately show ?case by (auto dest: grows_trans)
qed























text \<open>
  Claim C10. With a grammar made by \<open>fromEBNF\<close> (\<open>grammar.ebnf\<close> is set), the reduce of a
  rule whose non-terminal's name starts with \<open>config.uniq\<close> does not depend on the
  actions object: the result is the same as without any actions. A rule of two symbols
  whose first symbol is the rule's own non-terminal replaces the first collected value, a
  list, by its elements; an empty rule yields \<open>null\<close>; every other rule yields the list
  of the collected values.
\<close>

theorem C10_uniq_rules_ignore_actions:
  assumes "ebnf cfg" and "prefix (uniq cfg) (nt r)"
  shows "build_reduce cfg actions r p = build_reduce cfg None r p
       \<and> (length (symbols r) = 2 \<and> symbols r ! 0 = NT_sym (nt r) \<and> valuestack p = vs @ [JArr xs, y] \<longrightarrow>
            build_reduce cfg actions r p =
              Inr (p\<lparr>valuestack := vs @ [JArr (xs @ [y])]\<rparr>, JArr (xs @ [y])))
       \<and> (symbols r = [] \<longrightarrow>
            build_reduce cfg actions r p = Inr (p\<lparr>valuestack := valuestack p @ [JNull]\<rparr>, JNull))
       \<and> (symbols r \<noteq> [] \<and> \<not> (length (symbols r) = 2 \<and> symbols r ! 0 = NT_sym (nt r))
            \<and> valuestack p = vs @ ws \<and> length ws = length (symbols r) \<longrightarrow>
            build_reduce cfg actions r p = Inr (p\<lparr>valuestack := vs @ [JArr ws]\<rparr>, JArr ws))"
  using assms
  by (auto simp add: build_reduce_def Let_def)

definition config_1 :: Config where
  "config_1 = \<lparr>uniq = ''$-'', noargs = False, ebnf = True\<rparr>"

definition rule_some :: Rule where
  "rule_some =
     \<lparr>nt = ''$-2'', symbols = [NT_sym ''$-2'', NT_sym ''$-3''], index = 4,
      prec = None, prec_t = None, rule_reached = True, rule_finite = True, rule_reduced = True\<rparr>"

definition actions_1 :: "nat actions" where
  "actions_1 = Some [''$-2'' \<mapsto> \<lparr>arity = 0, body = (\<lambda>args. Returns (JOther 42))\<rparr>]"

definition parser_1 :: "nat Parser" where
  "parser_1 = \<lparr>valuestack = [JArr [], JStr ''1'', JArr [JArr [JStr '','', JStr ''2'']], JArr [JStr '','', JStr ''3'']],
                errors = 0\<rparr>"

theorem C10_uniq_rules_ignore_actions_witness:
  "ebnf config_1 \<and> prefix (uniq config_1) (nt rule_some)
   \<and> build_reduce config_1 actions_1 rule_some parser_1 =
       Inr (\<lparr>valuestack = [JArr [], JStr ''1'',
                            JArr [JArr [JStr '','', JStr ''2''], JArr [JStr '','', JStr ''3'']]],
              errors = 0\<rparr>,
            JArr [JArr [JStr '','', JStr ''2''], JArr [JStr '','', JStr ''3'']])"
proof -
  have a: "ebnf config_1" and b: "prefix (uniq config_1) (nt rule_some)"
    by (simp_all add: config_1_def rule_some_def)
  note flatten = C10_uniq_rules_ignore_actions [OF a b, of actions_1 parser_1
      "[JArr [], JStr ''1'']" "[JArr [JStr '','', JStr ''2'']]" "JArr [JStr '','', JStr ''3'']",
      THEN conjunct2, THEN conjunct1]
  have "build_reduce config_1 actions_1 rule_some parser_1 =
       Inr (parser_1\<lparr>valuestack := [JArr [], JStr ''1''] @
              [JArr ([JArr [JStr '','', JStr ''2'']] @ [JArr [JStr '','', JStr ''3'']])]\<rparr>,
            JArr ([JArr [JStr '','', JStr ''2'']] @ [JArr [JStr '','', JStr ''3'']]))"
    by (rule flatten [rule_format]) (simp add: rule_some_def parser_1_def)
  then show ?thesis using a b by (simp add: parser_1_def)
qed

section \<open>Properties of literals and the scanner\<close>

lemma indexOf_None_iff: "indexOf xs c = None \<longleftrightarrow> c \<notin> set xs"
  by (induction xs) auto

lemma drop_butlast_Cons:
  "i < length s - 1 \<Longrightarrow> drop i (butlast s) = s ! i # drop (Suc i) (butlast s)"
proof -
  assume a: "i < length s - 1"
  then have "i < length (butlast s)" by simp
  then have "drop i (butlast s) = butlast s ! i # drop (Suc i) (butlast s)"
    by (rule Cons_nth_drop_Suc [symmetric])
  then show ?thesis using a by (simp add: nth_butlast)
qed

lemma take_drop_butlast:
  "i + n \<le> length s - 1 \<Longrightarrow> take n (drop i (butlast s)) = take n (drop i s)"
  by (simp add: butlast_conv_take drop_take min_def)

lemma take2_drop:
  "i + 1 < length s \<Longrightarrow> take 2 (drop i s) = [s ! i, s ! (i + 1)]"
  by (simp add: numeral_2_eq_2 take_Suc_conv_app_nth Cons_nth_drop_Suc[symmetric])

lemma take4_drop:
  "i + 3 < length s \<Longrightarrow> take 4 (drop i s) = [s ! i, s ! (i + 1), s ! (i + 2), s ! (i + 3)]"
proof -
  assume a: "i + 3 < length s"
  have "drop i s = s ! i # s ! (i + 1) # s ! (i + 2) # s ! (i + 3) # drop (i + 4) s"
    using a by (simp add: Cons_nth_drop_Suc numeral_eq_Suc)
  then show ?thesis by simp
qed

text \<open>The loop started at index \<open>i\<close> appends to \<open>result\<close> what the rest of the text
  between the delimiters stands for.\<close>

lemma unescape_loop_unescaped:
  "unescape_loop s i r = r @ unescaped (drop i (butlast s))"
proof (induction s i r rule: unescape_loop.induct)
  case (1 s i r)
  show ?case
  proof (cases "i < length s - 1")
    case False
    then show ?thesis by (simp add: unescape_loop.simps [of s i r])
  next
    case True
    note d1 = drop_butlast_Cons [OF True]
    show ?thesis
    proof (cases "s ! i \<noteq> backslash")
      case c: True
      show ?thesis
      proof (cases "drop (Suc i) (butlast s)")
        case Nil
        then show ?thesis using True c "1.IH"(1) [OF True c]
          by (simp add: unescape_loop.simps [of s i r] d1)
      next
        case (Cons d ds)
        then show ?thesis using True c "1.IH"(1) [OF True c]
          by (simp add: unescape_loop.simps [of s i r] d1)
      qed
    next
      case c: False
      show ?thesis
      proof (cases "length s - 1 \<le> i + 1")
        case e: True
        then have "drop (Suc i) (butlast s) = []" by simp
        then show ?thesis using True c e "1.IH"(2) [OF True _ e]
          by (simp add: unescape_loop.simps [of s i r] d1)
      next
        case e: False
        then have lt: "i + 1 < length s - 1" by simp
        have d2: "drop (Suc i) (butlast s) = s ! Suc i # drop (Suc (Suc i)) (butlast s)"
          using drop_butlast_Cons [of "Suc i" s] lt by simp
        show ?thesis
        proof (cases "indexOf escape_letters (s ! (i + 1))")
          case (Some k)
          then show ?thesis using True c e "1.IH"(8) [OF True _ e Some]
            by (simp add: unescape_loop.simps [of s i r] d1 d2)
        next
          case None
          have hex2: "(i + 2 + 1 < length s - 1
                         \<and> indexOf hex_digits (s ! (i + 2)) \<noteq> None
                         \<and> indexOf hex_digits (s ! (i + 2 + 1)) \<noteq> None)
                   \<longleftrightarrow> (2 \<le> length (drop (Suc (Suc i)) (butlast s))
                         \<and> (\<forall>h \<in> set (take 2 (drop (Suc (Suc i)) (butlast s))). is_hex h))"
            by (auto simp add: indexOf_None_iff is_hex_def take_drop_butlast take2_drop)
          have hex4: "(i + 2 + 3 < length s - 1
                         \<and> indexOf hex_digits (s ! (i + 2)) \<noteq> None
                         \<and> indexOf hex_digits (s ! (i + 2 + 1)) \<noteq> None
                         \<and> indexOf hex_digits (s ! (i + 2 + 2)) \<noteq> None
                         \<and> indexOf hex_digits (s ! (i + 2 + 3)) \<noteq> None)
                   \<longleftrightarrow> (4 \<le> length (drop (Suc (Suc i)) (butlast s))
                         \<and> (\<forall>h \<in> set (take 4 (drop (Suc (Suc i)) (butlast s))). is_hex h))"
            by (auto simp add: indexOf_None_iff is_hex_def take_drop_butlast take4_drop)
          show ?thesis
          proof (cases "s ! (i + 1) = of_char CHR ''x''")
            case x: True
            show ?thesis
            proof (cases "i + 2 + 1 < length s - 1
                         \<and> indexOf hex_digits (s ! (i + 2)) \<noteq> None
                         \<and> indexOf hex_digits (s ! (i + 2 + 1)) \<noteq> None")
              case h: True
              have t: "take 2 (drop (Suc (Suc i)) (butlast s)) = take 2 (drop (i + 2) s)"
                using h by (simp add: take_drop_butlast)
              have "unescape_loop s i r =
                    unescape_loop s (i + 2 + 2) (r @ [parseInt16 (take 2 (drop (i + 2) s))])"
                using True c e None x h by (subst unescape_loop.simps) (auto simp del: not_None_eq)
              also have "\<dots> = (r @ [parseInt16 (take 2 (drop (i + 2) s))])
                              @ unescaped (drop (i + 2 + 2) (butlast s))"
                by (rule "1.IH"(3) [OF True _ e None x h]) (simp add: c)
              also have "\<dots> = r @ unescaped (drop i (butlast s))"
                using c None x h [unfolded hex2] by (simp add: d1 d2 t)
              finally show ?thesis .
            next
              case h: False
              have "unescape_loop s i r = unescape_loop s (i + 2) (r @ [of_char CHR ''x''])"
                using True c e None x h by (subst unescape_loop.simps) (auto simp del: not_None_eq)
              also have "\<dots> = (r @ [of_char CHR ''x'']) @ unescaped (drop (i + 2) (butlast s))"
                by (rule "1.IH"(4) [OF True _ e None x h]) (simp add: c)
              also have "\<dots> = r @ unescaped (drop i (butlast s))"
                using c None x h [unfolded hex2] by (auto simp add: d1 d2)
              finally show ?thesis .
            qed
          next
            case x: False
            show ?thesis
            proof (cases "s ! (i + 1) = of_char CHR ''u''")
              case u: True
              show ?thesis
              proof (cases "i + 2 + 3 < length s - 1
                         \<and> indexOf hex_digits (s ! (i + 2)) \<noteq> None
                         \<and> indexOf hex_digits (s ! (i + 2 + 1)) \<noteq> None
                         \<and> indexOf hex_digits (s ! (i + 2 + 2)) \<noteq> None
                         \<and> indexOf hex_digits (s ! (i + 2 + 3)) \<noteq> None")
                case h: True
                have t: "take 4 (drop (Suc (Suc i)) (butlast s)) = take 4 (drop (i + 2) s)"
                  using h by (simp add: take_drop_butlast)
                have "unescape_loop s i r =
                      unescape_loop s (i + 2 + 4) (r @ [parseInt16 (take 4 (drop (i + 2) s))])"
                  using True c e None x u h by (subst unescape_loop.simps) (auto simp del: not_None_eq)
                also have "\<dots> = (r @ [parseInt16 (take 4 (drop (i + 2) s))])
                                @ unescaped (drop (i + 2 + 4) (butlast s))"
                  by (rule "1.IH"(5) [OF True _ e None x u h]) (simp add: c)
                also have "\<dots> = r @ unescaped (drop i (butlast s))"
                  using c None x u h [unfolded hex4] by (simp add: d1 d2 t)
                finally show ?thesis .
              next
                case h: False
                have "unescape_loop s i r = unescape_loop s (i + 2) (r @ [of_char CHR ''u''])"
                  using True c e None x u h by (subst unescape_loop.simps) (auto simp del: not_None_eq)
                also have "\<dots> = (r @ [of_char CHR ''u'']) @ unescaped (drop (i + 2) (butlast s))"
                  by (rule "1.IH"(6) [OF True _ e None x u h]) (simp add: c)
                also have "\<dots> = r @ unescaped (drop i (butlast s))"
                  using c None x u h [unfolded hex4] by (auto simp add: d1 d2)
                finally show ?thesis .
              qed
            next
              case u: False
              have "unescape_loop s i r = unescape_loop s (i + 2) (r @ [s ! (i + 1)])"
                using True c e None x u by (subst unescape_loop.simps) (auto simp del: not_None_eq)
              also have "\<dots> = (r @ [s ! (i + 1)]) @ unescaped (drop (i + 2) (butlast s))"
                by (rule "1.IH"(7) [OF True _ e None x u]) (simp add: c)
              also have "\<dots> = r @ unescaped (drop i (butlast s))"
                using c None x u by (simp add: d1 d2)
              finally show ?thesis .
            qed
          qed
        qed
      qed
    qed
  qed
qed

lemma unescape_unescaped: "unescape (q # cs @ [q']) = unescaped cs"
  by (simp add: unescape_def unescape_loop_unescaped butlast_append)

text \<open>
  Claim C6, as stated, at the literal \<open>'\x4A'\<close>: the claim takes \<open>\x4A\<close> for the
  character \<open>J\<close> (code 74), \<open>unescape\<close> yields the three characters \<open>x4A\<close>.
\<close>

theorem C6_uppercase_hex_counterexample:
  "unescape ([quote, backslash] @ js ''x4A'' @ [quote]) = js ''x4A''
   \<and> unescape ([quote, backslash] @ js ''x4A'' @ [quote]) \<noteq> js ''J''"
  by (simp add: unescape_def unescape_loop_unescaped js_def quote_def backslash_def
        escape_letters_def hex_digits_def is_hex_def)

text \<open>
  Claim C6, amended. \<open>unescape\<close> drops the first and the last character and yields what
  the text between them stands for according to \<open>unescaped\<close>: the escapes
  \<open>\b \f \n \r \t \v \\ \'\<close>, \<open>\xHH\<close> and \<open>\uHHHH\<close> with digits out of
  \<open>0123456789abcdef\<close> only, any other \<open>\c\<close> as \<open>c\<close>, and a backslash at the end as
  itself. Four literals as examples: \<open>'\x4a'\<close>, \<open>'J\n'\<close>, \<open>'a\'\q'\<close> and
  \<open>'\x4'\<close>.
\<close>

theorem C6_unescape_refines:
  "unescape (q # cs @ [q']) = unescaped cs
   \<and> unescape ([quote, backslash] @ js ''x4a'' @ [quote]) = js ''J''
   \<and> unescape ([quote, backslash] @ js ''u004a'' @ [backslash] @ js ''n'' @ [quote]) = js ''J'' @ [10]
   \<and> unescape ([quote] @ js ''a'' @ [backslash, quote, backslash] @ js ''q'' @ [quote]) = js ''a'' @ [quote] @ js ''q''
   \<and> unescape ([quote, backslash] @ js ''x4'' @ [quote]) = js ''x4''"
  by (simp add: unescape_unescaped)
     (simp add: unescape_def unescape_loop_unescaped js_def quote_def backslash_def
        escape_letters_def escape_values_def hex_digits_def is_hex_def parseInt16_def)

subsection \<open>The order of the terminals in the scanner's pattern\<close>

text \<open>Two used literals, \<open>'ab'\<close> and \<open>'b'\<close>, no tokens, and a pattern for white
  space to skip.\<close>

definition white_space :: regexp where
  "white_space input p =
     (let n = length (takeWhile (\<lambda>c. c = 32 \<or> c = 10) (drop p input))
      in if n = 0 then None else Some n)"

definition lit_ab :: Lit where
  "lit_ab = \<lparr>lit_name = [quote] @ js ''ab'' @ [quote], lit_used = True\<rparr>"

definition lit_b :: Lit where
  "lit_b = \<lparr>lit_name = [quote] @ js ''b'' @ [quote], lit_used = True\<rparr>"

definition factory_ab_b :: Factory where
  "factory_ab_b =
     \<lparr>lits = [(new_Lit ([quote] @ js ''ab'' @ [quote]))\<lparr>lit_used := True\<rparr>,
              (new_Lit ([quote] @ js ''b'' @ [quote]))\<lparr>lit_used := True\<rparr>],
      tokens = []\<rparr>"

definition scanner_ab_b :: Scanner where
  "scanner_ab_b = \<lparr>scanner_terminals = [A_Lit lit_b, A_Lit lit_ab], skip = white_space\<rparr>"

lemma unescape_plain: "backslash \<notin> set cs \<Longrightarrow> unescaped cs = cs"
  by (induction cs rule: unescaped.induct) auto

lemma unescape_ab: "unescape [39, 97, 98, 39] = [97, 98]"
  using unescape_unescaped [of 39 "[97, 98]" 39] by (simp add: unescape_plain backslash_def)

lemma unescape_b: "unescape [39, 98, 39] = [98]"
  using unescape_unescaped [of 39 "[98]" 39] by (simp add: unescape_plain backslash_def)

lemma lit_value_ab: "lit_value lit_ab = [97, 98]"
  by (simp add: lit_value_def lit_ab_def js_def quote_def unescape_ab)

lemma lit_value_b: "lit_value lit_b = [98]"
  by (simp add: lit_value_def lit_b_def js_def quote_def unescape_b)

lemma new_Scanner_ab_b: "new_Scanner factory_ab_b white_space None = Some scanner_ab_b"
  by (simp add: new_Scanner_def factory_ab_b_def new_Lit_def lit_value_def unescape_ab unescape_b
        sort_by_def compare_lits_def js_def quote_def scanner_ab_b_def lit_ab_def lit_b_def)

text \<open>
  Claim C4 at this grammar: the scanner made without a list of terminals has the literal
  \<open>'b'\<close> (length 1) before the literal \<open>'ab'\<close> (length 2) in its pattern. The
  literals are sorted with \<open>a.value < b.value ? 1 : -1\<close>, by descending value and not by
  decreasing length.
\<close>

theorem C4_literals_by_value_not_length:
  "map_option (\<lambda>sc. map (\<lambda>t. case t of A_Lit l \<Rightarrow> lit_value l | A_Token k \<Rightarrow> token_name k)
                      (scanner_terminals sc))
     (new_Scanner factory_ab_b white_space None) = Some [js ''b'', js ''ab'']"
  by (simp add: new_Scanner_ab_b scanner_ab_b_def lit_value_ab lit_value_b js_def)

subsection \<open>What \<open>scan\<close> returns\<close>

lemma scan_empty: "scan sc [] = Some (Inr [])"
  by (simp add: scan_def) (subst scan_loop.simps, simp)

definition tuples_ab :: "Tuple list" where
  "tuples_ab = [\<lparr>tuple_lineno = 1, tuple_t = Some (A_Lit lit_ab), tuple_value = js ''ab''\<rparr>]"

lemma scan_ab: "scan scanner_ab_b (js ''ab'') = Some (Inr tuples_ab)"
  apply (simp add: scanner_ab_b_def js_def scan_def tuples_ab_def)
  apply (subst scan_loop.simps)
  apply (simp add: pattern_exec_def pattern_def first_match_def white_space_def literal_regexp_def
           escape_def lit_value_ab lit_value_b)
  apply (subst scan_loop.simps)
  apply simp
  done

text \<open>
  Claim C5, as stated, at the empty input and at the input \<open>ab\<close>, for the scanner of the
  grammar above: \<open>scan\<close> returns the empty list for the empty input, and for \<open>ab\<close> one
  tuple, whose terminal is the literal \<open>'ab'\<close>. Neither list ends with a tuple for
  \<open>$eof\<close>.
\<close>

theorem C5_no_eof_tuple_counterexample:
  "map_option (\<lambda>sc. scan sc []) (new_Scanner factory_ab_b white_space None) = Some (Some (Inr []))
   \<and> map_option (\<lambda>sc. map_option (map_sum id (map (\<lambda>tu. map_option is_eof (tuple_t tu)))) (scan sc (js ''ab'')))
        (new_Scanner factory_ab_b white_space None) = Some (Some (Inr [Some False]))"
  by (simp add: new_Scanner_ab_b scan_empty scan_ab tuples_ab_def lit_ab_def quote_def)

definition ok_terminal :: "terminal \<Rightarrow> bool" where
  "ok_terminal t = (case t of
      A_Lit l \<Rightarrow> True
    | A_Token k \<Rightarrow> (case screen k of None \<Rightarrow> True | Some m \<Rightarrow> list_all (\<lambda>e. lit_name (snd e) \<noteq> []) m))"

definition ok_tuple :: "Tuple \<Rightarrow> bool" where
  "ok_tuple tu = (case tuple_t tu of None \<Rightarrow> True | Some t \<Rightarrow> \<not> is_eof t)"

lemma set_insert_by: "set (insert_by cmp x xs) = insert x (set xs)"
  by (induction xs) auto

lemma set_sort_by: "set (sort_by cmp xs) = set xs"
  by (induction xs) (auto simp: sort_by_def set_insert_by)

lemma screen_lits_names:
  "screen_lits token ls (m, screened) = Some (m', screened') \<Longrightarrow>
   snd ` set m' \<subseteq> snd ` set m \<union> set ls"
proof (induction ls arbitrary: m screened)
  case Nil
  then show ?case by simp
next
  case (Cons lit ls)
  show ?case
  proof (cases "exec (pat token) (lit_value lit) = Some (lit_value lit)")
    case True
    with Cons.prems have n: "lit_name lit \<notin> set screened"
      and r: "screen_lits token ls (AList.update (lit_value lit) lit m, lit_name lit # screened) = Some (m', screened')"
      by (auto split: if_splits)
    have "snd ` set (AList.update (lit_value lit) lit m) \<subseteq> insert lit (snd ` set m)"
      by (induction m) (auto split: if_splits)
    with Cons.IH [OF r] show ?thesis by auto
  next
    case False
    with Cons.prems Cons.IH [of m screened] show ?thesis by auto
  qed
qed

lemma screen_tokens_ok:
  "screen_tokens ts ls screened = Some (ts', screened') \<Longrightarrow>
   \<forall>l \<in> set ls. lit_name l \<noteq> [] \<Longrightarrow> \<forall>k \<in> set ts'. ok_terminal (A_Token k)"
proof (induction ts arbitrary: screened ts' screened')
  case Nil
  then show ?case by simp
next
  case (Cons token ts)
  from Cons.prems(1) obtain m s1 ts1 where
    a: "screen_lits token ls ([], screened) = Some (m, s1)" and
    b: "screen_tokens ts ls s1 = Some (ts1, screened')" and
    c: "ts' = token\<lparr>screen := (if m = [] then None else Some m)\<rparr> # ts1"
    by (auto split: option.splits)
  from screen_lits_names [OF a] Cons.prems(2)
  have "ok_terminal (A_Token (token\<lparr>screen := (if m = [] then None else Some m)\<rparr>))"
    by (auto simp: ok_terminal_def list_all_iff)
  with Cons.IH [OF b Cons.prems(2)] c show ?case by simp
qed

lemma new_Scanner_ok:
  assumes "new_Scanner factory sk None = Some sc"
  shows "list_all ok_terminal (scanner_terminals sc)"
proof -
  define ls where "ls = sort_by compare_lits (filter (\<lambda>lit. lit_used lit \<and> lit_name lit \<noteq> []) (lits factory))"
  define ts where "ts = sort_by compare_tokens (filter (\<lambda>token. token_used token \<and> token_name token \<noteq> []) (tokens factory))"
  have "new_Scanner factory sk None =
        (case screen_tokens ts ls [] of
           None \<Rightarrow> None
         | Some (ts', screened) \<Rightarrow>
             Some \<lparr>scanner_terminals =
                      map A_Token ts' @ map A_Lit (filter (\<lambda>lit. lit_name lit \<notin> set screened) ls),
                   skip = sk\<rparr>)"
    by (simp only: new_Scanner_def Let_def ls_def ts_def option.case)
  with assms obtain ts' screened where
    a: "screen_tokens ts ls [] = Some (ts', screened)" and
    b: "scanner_terminals sc = map A_Token ts' @ map A_Lit (filter (\<lambda>lit. lit_name lit \<notin> set screened) ls)"
    by (cases "screen_tokens ts ls []") auto
  have l: "\<forall>l \<in> set ls. lit_name l \<noteq> []" by (simp add: ls_def set_sort_by)
  have t: "\<forall>k \<in> set ts'. ok_terminal (A_Token k)" by (rule screen_tokens_ok [OF a l])
  have "\<forall>lit \<in> set ls. ok_terminal (A_Lit lit)" by (simp add: ok_terminal_def)
  with t show ?thesis unfolding b by (auto simp: list_all_iff)
qed

lemma items_match_length: "items_match its input p = Some n \<Longrightarrow> n \<le> length its"
proof (induction its arbitrary: p n)
  case Nil
  then show ?case by simp
next
  case (Cons x its)
  then show ?case by (cases x) (fastforce split: if_splits)+
qed

lemma literal_regexp_length: "literal_regexp v input p = Some n \<Longrightarrow> n \<le> length v"
  by (auto simp: literal_regexp_def escape_def dest: items_match_length)

lemma alternation_Some:
  "alternation res k0 input p = Some (k, n) \<Longrightarrow>
   k0 \<le> k \<and> k < k0 + length res \<and> (res ! (k - k0)) input p = Some n"
proof (induction res arbitrary: k0)
  case Nil
  then show ?case by simp
next
  case (Cons re res)
  show ?case
  proof (cases "re input p")
    case None
    with Cons.prems have "alternation res (Suc k0) input p = Some (k, n)" by simp
    from Cons.IH [OF this] show ?thesis by (auto simp: Suc_diff_le)
  next
    case (Some a)
    with Cons.prems show ?thesis by simp
  qed
qed

lemma first_match_Some:
  "first_match f a b = Some (p, x) \<Longrightarrow> f p = Some x \<and> a \<le> p"
  by (auto simp: first_match_def split: option.splits dest: find_Some_set)

lemma pattern_exec_terminal:
  assumes "pattern_exec sc input lastIndex = Some (idx, k, matched)" and "0 < k" and "matched \<noteq> []"
  shows "k - 1 < length (scanner_terminals sc)
       \<and> (\<forall>l. scanner_terminals sc ! (k - 1) = A_Lit l \<longrightarrow> lit_name l \<noteq> [])"
proof -
  from assms(1) obtain n where
    f: "first_match (alternation (pattern sc) 0 input) lastIndex (length input) = Some (idx, k, n)"
    and m: "matched = take n (drop idx input)"
    by (auto simp: pattern_exec_def)
  from f have "alternation (pattern sc) 0 input idx = Some (k, n)" by (auto dest: first_match_Some)
  from alternation_Some [OF this] have k: "k < length (pattern sc)" and r: "(pattern sc ! k) input idx = Some n"
    by auto
  from k assms(2) have k1: "k - 1 < length (scanner_terminals sc)" by (auto simp: pattern_def)
  from assms(2) have "pattern sc ! k = terminal_regexp (scanner_terminals sc ! (k - 1))"
    using k1 by (cases k) (auto simp: pattern_def)
  with r have t: "terminal_regexp (scanner_terminals sc ! (k - 1)) input idx = Some n" by simp
  from m assms(3) have n0: "0 < n" by (cases n) auto
  have "lit_name l \<noteq> []" if "scanner_terminals sc ! (k - 1) = A_Lit l" for l
  proof -
    from t that have "literal_regexp (lit_value l) input idx = Some n" by simp
    from literal_regexp_length [OF this] n0 have "lit_value l \<noteq> []" by auto
    then show ?thesis by (auto simp: lit_value_def split: if_splits)
  qed
  with k1 show ?thesis by blast
qed

lemma screened_terminal_not_eof:
  assumes "ok_terminal t" and "\<forall>l. t = A_Lit l \<longrightarrow> lit_name l \<noteq> []"
    and "screened_terminal t matched = Inr t'"
  shows "\<not> is_eof t'"
proof (cases t)
  case (A_Lit l)
  with assms show ?thesis by auto
next
  case (A_Token k)
  show ?thesis
  proof (cases "screen k")
    case None
    with A_Token assms(3) show ?thesis by auto
  next
    case (Some m)
    show ?thesis
    proof (cases "map_of m matched")
      case None
      with Some A_Token assms(3) show ?thesis by (auto split: if_splits)
    next
      case (Some lit)
      then have "(matched, lit) \<in> set m" by (rule map_of_SomeD)
      with assms(1) A_Token \<open>screen k = Some m\<close> have "lit_name lit \<noteq> []"
        by (auto simp: ok_terminal_def list_all_iff)
      with Some \<open>screen k = Some m\<close> A_Token assms(3) show ?thesis by auto
    qed
  qed
qed

lemma scan_loop_ok_aux:
  assumes major: "scan_loop sc0 input0 lineno0 beginning0 lastIndex0 result0 = Some r0"
  shows "list_all ok_terminal (scanner_terminals sc0) \<longrightarrow>
   (\<forall>tu \<in> set result0. ok_tuple tu) \<longrightarrow> (\<forall>ts. r0 = Inr ts \<longrightarrow> (\<forall>tu \<in> set ts. ok_tuple tu))"
proof (rule scan_loop.raw_induct [where P = "\<lambda>sc input lineno beginning lastIndex result r.
   list_all ok_terminal (scanner_terminals sc) \<longrightarrow>
   (\<forall>tu \<in> set result. ok_tuple tu) \<longrightarrow> (\<forall>ts. r = Inr ts \<longrightarrow> (\<forall>tu \<in> set ts. ok_tuple tu))", OF _ major], goal_cases)
  case (1 f sc input lineno beginning lastIndex result r)
  note IH = 1(1) and eq = 1(2)
  show ?case
  proof (intro impI allI)
    fix ts
    assume ok1: "list_all ok_terminal (scanner_terminals sc)"
      and ok2: "\<forall>tu \<in> set result. ok_tuple tu"
      and r: "r = Inr ts"
    show "\<forall>tu \<in> set ts. ok_tuple tu"
    proof (cases "lastIndex < length input")
      case False
      with eq ok2 r show ?thesis by simp
    next
      case True
      show ?thesis
      proof (cases "pattern_exec sc input lastIndex")
        case None
        with True eq ok2 r show ?thesis by (auto simp: ok_tuple_def)
      next
        case (Some m)
        obtain idx k mt where m: "m = (idx, k, mt)" by (cases m) auto
        define illegal where "illegal = take (idx - beginning) (drop beginning input)"
        define result1 where "result1 = (if beginning < idx
                               then result @ [\<lparr>tuple_lineno = lineno, tuple_t = None, tuple_value = illegal\<rparr>]
                               else result)"
        define lineno1 where "lineno1 = (if beginning < idx then lineno + nl illegal else lineno)"
        have ok3: "\<forall>tu \<in> set result1. ok_tuple tu"
          using ok2 by (auto simp: result1_def ok_tuple_def)
        show ?thesis
        proof (cases "0 < k \<and> mt \<noteq> []")
          case False
          have call: "f sc input (lineno1 + nl mt) (idx + length mt) (idx + length mt) result1 = Some r"
            using eq False unfolding illegal_def result1_def lineno1_def
            by (simp only: True Some m if_True if_False option.case prod.case Let_def simp_thms)
          from IH [OF call] ok1 ok3 r show ?thesis by blast
        next
          case km: True
          from pattern_exec_terminal [of sc input lastIndex idx k mt] Some m km
          have k1: "k - 1 < length (scanner_terminals sc)"
            and nm: "\<forall>l. scanner_terminals sc ! (k - 1) = A_Lit l \<longrightarrow> lit_name l \<noteq> []"
            by auto
          from k1 ok1 have okt: "ok_terminal (scanner_terminals sc ! (k - 1))"
            by (auto simp: list_all_iff)
          show ?thesis
          proof (cases "screened_terminal (scanner_terminals sc ! (k - 1)) mt")
            case (Inl e)
            have "Some (Inl e) = Some r"
              using eq km Inl unfolding illegal_def result1_def lineno1_def
              by (simp only: True Some m if_True option.case prod.case Let_def sum.case simp_thms)
            with r show ?thesis by simp
          next
            case (Inr t)
            have call: "f sc input (lineno1 + nl mt) (idx + length mt) (idx + length mt)
                (result1 @ [\<lparr>tuple_lineno = lineno1, tuple_t = Some t, tuple_value = mt\<rparr>]) = Some r"
              using eq km Inr unfolding illegal_def result1_def lineno1_def
              by (simp only: True Some m if_True option.case prod.case Let_def sum.case simp_thms)
            from screened_terminal_not_eof [OF okt nm Inr] ok3
            have "\<forall>tu \<in> set (result1 @ [\<lparr>tuple_lineno = lineno1, tuple_t = Some t, tuple_value = mt\<rparr>]). ok_tuple tu"
              by (auto simp: ok_tuple_def)
            with IH [OF call] ok1 r show ?thesis by blast
          qed
        qed
      qed
    qed
  qed
qed

lemma scan_ok:
  assumes "list_all ok_terminal (scanner_terminals sc)" and "scan sc input = Some (Inr ts)"
  shows "\<forall>tu \<in> set ts. ok_tuple tu"
  using scan_loop_ok_aux [OF assms(2) [unfolded scan_def]] assms(1) by simp

text \<open>The state of the input after \<open>j\<close> tuples of \<open>ts\<close> have been handed out, with
  \<open>c\<close> as the current tuple; \<open>done\<close> tells whether the \<open>null\<close> at the end has been
  replaced by the tuple for the end of input.\<close>

definition handed :: "Lit \<Rightarrow> Tuple list \<Rightarrow> nat \<Rightarrow> bool \<Rightarrow> Tuple option \<Rightarrow> Lookahead" where
  "handed eof ts j dn c =
     \<lparr>p_input = None,
      p_tuples = map Some ts @ [if dn then Some (eof_tuple eof) else None],
      p_index = j, p_current = c\<rparr>"

lemma next_start:
  "next_tuple eof (parse_start ts) = next_tuple eof (handed eof ts 0 False None)"
  by (simp add: next_tuple_def refill_def parse_start_def handed_def)

lemma next_handed_tuple:
  assumes "j < length ts" and "ok_tuple (ts ! j)"
  shows "next_tuple eof (handed eof ts j dn c) = Some (handed eof ts (Suc j) dn (Some (ts ! j)))"
  using assms
  by (auto simp: next_tuple_def refill_def handed_def nth_append ok_tuple_def Let_def
        list_update_append list_update_same_conv [THEN iffD2] split: option.splits)

lemma next_handed_eof:
  assumes "lit_name eof = []"
  shows "next_tuple eof (handed eof ts (length ts) dn c)
       = Some (handed eof ts (length ts) True (Some (eof_tuple eof)))"
proof -
  have "(map Some ts @ [x])[length ts := y] = map Some ts @ [y]" for x y :: "Tuple option"
    by (simp add: list_update_append)
  with assms show ?thesis
    by (simp add: next_tuple_def refill_def handed_def nth_append Let_def eof_tuple_def)
qed

lemma nexts_handed:
  assumes "\<forall>tu \<in> set ts. ok_tuple tu" and "lit_name eof = []" and "j \<le> length ts"
  shows "\<exists>dn'. nexts (Suc k) eof (handed eof ts j dn c)
          = Some (handed eof ts (min (j + Suc k) (length ts)) dn'
                    (Some (if j + k < length ts then ts ! (j + k) else eof_tuple eof)))"
  using assms(3)
proof (induction k arbitrary: j dn c)
  case 0
  show ?case
  proof (cases "j < length ts")
    case True
    with assms(1) have "ok_tuple (ts ! j)" by simp
    from next_handed_tuple [OF True this, of eof dn c] True show ?thesis by auto
  next
    case False
    with 0 have j: "j = length ts" by simp
    from next_handed_eof [OF assms(2), of ts dn c] show ?thesis by (auto simp: j)
  qed
next
  case (Suc k)
  show ?case
  proof (cases "j < length ts")
    case True
    with assms(1) have "ok_tuple (ts ! j)" by simp
    from next_handed_tuple [OF True this, of eof dn c]
    have n: "next_tuple eof (handed eof ts j dn c) = Some (handed eof ts (Suc j) dn (Some (ts ! j)))" .
    then have s: "nexts (Suc (Suc k)) eof (handed eof ts j dn c)
        = nexts (Suc k) eof (handed eof ts (Suc j) dn (Some (ts ! j)))"
      by (simp only: nexts.simps(2) [of "Suc k"] option.case)
    from True have "Suc j \<le> length ts" by simp
    from Suc.IH [OF this, of dn "Some (ts ! j)"] show ?thesis
      unfolding s by (auto simp del: nexts.simps simp: min_def)
  next
    case False
    with Suc.prems have j: "j = length ts" by simp
    from next_handed_eof [OF assms(2), of ts dn c]
    have n: "next_tuple eof (handed eof ts j dn c) = Some (handed eof ts j True (Some (eof_tuple eof)))"
      by (simp add: j)
    then have s: "nexts (Suc (Suc k)) eof (handed eof ts j dn c)
        = nexts (Suc k) eof (handed eof ts j True (Some (eof_tuple eof)))"
      by (simp only: nexts.simps(2) [of "Suc k"] option.case)
    from Suc.IH [OF Suc.prems, of True "Some (eof_tuple eof)"] j show ?thesis
      unfolding s by (auto simp del: nexts.simps simp: min_def)
  qed
qed

lemma nexts_current:
  assumes "\<forall>tu \<in> set ts. ok_tuple tu" and "lit_name eof = []"
  shows "map_option p_current (nexts (Suc k) eof (parse_start ts))
       = Some (Some (if k < length ts then ts ! k else eof_tuple eof))"
proof -
  have "nexts (Suc k) eof (parse_start ts) = nexts (Suc k) eof (handed eof ts 0 False None)"
    by (simp add: next_start)
  with nexts_handed [OF assms, of 0 k False None] show ?thesis
    by (auto simp: handed_def)
qed

text \<open>
  Claim C5, amended. Take a scanner whose tokens screen only literals with a name, as
  every scanner that the constructor makes without a list of terminals does. If \<open>scan\<close>
  returns a list of tuples, none of them has the \<open>$eof\<close> literal as its terminal, and
  the list is empty for the empty input: \<open>scan\<close> does not signal the end of input. The
  BNF parser does: \<open>parse\<close> appends \<open>null\<close> to the list, and the calls of \<open>next\<close> hand
  out the tuples of the list one by one and then, at every further call, the tuple
  \<open>(0, $eof, '')\<close>.
\<close>

theorem C5_scan_without_eof:
  assumes "list_all ok_terminal (scanner_terminals sc)" and "scan sc input = Some (Inr ts)"
    and "lit_name eof = []"
  shows "(\<forall>tu \<in> set ts. case tuple_t tu of None \<Rightarrow> True | Some t \<Rightarrow> \<not> is_eof t)
       \<and> (input = [] \<longrightarrow> ts = [])
       \<and> (\<forall>k. map_option p_current (nexts (Suc k) eof (parse_start ts))
                = Some (Some (if k < length ts then ts ! k else eof_tuple eof)))
       \<and> (\<forall>factory sk sc'. new_Scanner factory sk None = Some sc'
             \<longrightarrow> list_all ok_terminal (scanner_terminals sc'))"
proof -
  have ok: "\<forall>tu \<in> set ts. ok_tuple tu" by (rule scan_ok [OF assms(1,2)])
  moreover have "input = [] \<longrightarrow> ts = []" using assms(2) by (auto simp: scan_empty)
  moreover note nexts_current [OF ok assms(3)] new_Scanner_ok
  ultimately show ?thesis by (simp add: ok_tuple_def)
qed

theorem C5_scan_without_eof_witness:
  "list_all ok_terminal (scanner_terminals scanner_ab_b)
   \<and> scan scanner_ab_b (js ''ab'') = Some (Inr tuples_ab)
   \<and> lit_name (new_Lit []) = []
   \<and> map (\<lambda>tu. map_option is_eof (tuple_t tu)) tuples_ab = [Some False]
   \<and> map (\<lambda>k. map_option p_current (nexts (Suc k) (new_Lit []) (parse_start tuples_ab))) [0, 1, 2]
      = [Some (Some (tuples_ab ! 0)), Some (Some (eof_tuple (new_Lit []))),
         Some (Some (eof_tuple (new_Lit [])))]
   \<and> new_Scanner factory_ab_b white_space None = Some scanner_ab_b"
proof -
  have a: "list_all ok_terminal (scanner_terminals scanner_ab_b)"
    by (simp add: ok_terminal_def scanner_ab_b_def)
  have c: "lit_name (new_Lit []) = []" by (simp add: new_Lit_def)
  note n = C5_scan_without_eof [OF a scan_ab c, THEN conjunct2, THEN conjunct2, THEN conjunct1,
      rule_format]
  have "map (\<lambda>tu. map_option is_eof (tuple_t tu)) tuples_ab = [Some False]"
    by (simp add: tuples_ab_def lit_ab_def quote_def)
  moreover have "map (\<lambda>k. map_option p_current (nexts (Suc k) (new_Lit []) (parse_start tuples_ab))) [0, 1, 2]
      = [Some (Some (tuples_ab ! 0)), Some (Some (eof_tuple (new_Lit []))),
         Some (Some (eof_tuple (new_Lit [])))]"
    using n [of 0] n [of 1] n [of 2] by (simp add: tuples_ab_def del: nexts.simps)
  ultimately show ?thesis using a c scan_ab new_Scanner_ab_b by simp
qed

section \<open>Properties of the translation from EBNF\<close>

subsection \<open>Generated names\<close>

lemma of_char_digit: "d < 10 \<Longrightarrow> of_char (digit d) = (48::nat) + d"
  by (simp add: digit_def)

lemma undecimal_decimal: "undecimal (decimal n) = n"
proof (induction n rule: decimal.induct)
  case (1 n)
  show ?case
  proof (cases "n < 10")
    case True
    then show ?thesis by (simp add: decimal.simps [of n] undecimal_def of_char_digit)
  next
    case False
    with 1 have "undecimal (decimal (n div 10)) = n div 10" by simp
    with False show ?thesis
      by (simp add: decimal.simps [of n] undecimal_def of_char_digit)
  qed
qed

lemma decimal_inj: "decimal m = decimal n \<Longrightarrow> m = n"
  by (metis undecimal_decimal)

lemma g_lit_same: "g_lit c n u g = Some g' \<Longrightarrow> g_nts g' = g_nts g \<and> g_rules g' = g_rules g"
  by (auto simp: g_lit_def split: option.splits if_splits)

lemma g_token_same: "g_token c n u g = Some g' \<Longrightarrow> g_nts g' = g_nts g \<and> g_rules g' = g_rules g"
  by (auto simp: g_token_def Let_def split: option.splits if_splits)

lemma byName_None: "byName f xs n = None \<longleftrightarrow> n \<notin> set (map f xs)"
  by (auto simp: byName_def find_None_iff)

lemma byName_Some: "byName f xs n = Some x \<Longrightarrow> n \<in> set (map f xs)"
  by (auto simp: byName_def dest!: find_Some_set)

lemma g_nt_effect:
  "g_nt c n g = Some g' \<Longrightarrow>
   g_rules g' = g_rules g \<and>
   (if n \<in> set (names g) then names g' = names g else names g' = names g @ [n])"
  by (auto simp: g_nt_def Let_def byName_None split: option.splits if_splits dest: byName_Some)

lemma g_rule_effect:
  "names (g_rule n syms t g) = names g \<and> productions (g_rule n syms t g) = productions g @ [(n, syms)]"
  by (auto simp: g_rule_def Let_def set_nt_empty_def split: option.splits prod.splits if_splits)

lemma uniq_name_fresh:
  assumes "uniq_inv c g"
  shows "uniq_name c g \<notin> set (names g)"
proof
  assume a: "uniq_name c g \<in> set (names g)"
  have "prefix (cfg_uniq c) (uniq_name c g)" by (simp add: uniq_name_def)
  with assms a have "generated c 0 (length (g_nts g)) (uniq_name c g)"
    unfolding uniq_inv_def by blast
  then obtain k where "k < length (g_nts g)" "cfg_uniq c @ decimal (length (g_nts g)) = cfg_uniq c @ decimal k"
    by (auto simp: generated_def uniq_name_def)
  then show False by (auto dest: decimal_inj)
qed

lemma g_nt_uniq_effect:
  assumes "g_nt_uniq c g = Some (n, g')" and "uniq_inv c g"
  shows "n = uniq_name c g \<and> n \<notin> set (names g) \<and> names g' = names g @ [n]
         \<and> g_rules g' = g_rules g \<and> uniq_inv c g'"
proof -
  from assms(1) have n: "n = uniq_name c g" and g: "g_nt c n g = Some g'"
    by (auto simp: g_nt_uniq_def)
  from uniq_name_fresh [OF assms(2)] n have fresh: "n \<notin> set (names g)" by simp
  with g_nt_effect [OF g] have eff: "names g' = names g @ [n]" "g_rules g' = g_rules g" by auto
  from eff(1) have len: "length (g_nts g') = Suc (length (g_nts g))"
    by (metis length_append_singleton length_map)
  have "uniq_inv c g'"
    unfolding uniq_inv_def eff(1) len
    using assms(2) n
    by (auto simp: uniq_inv_def generated_def uniq_name_def intro: less_SucI)
  with n fresh eff show ?thesis by simp
qed

lemma g_nt_plain_inv:
  assumes "g_nt c n g = Some g'" and "uniq_inv c g" and "\<not> prefix (cfg_uniq c) n"
  shows "uniq_inv c g'"
proof -
  from g_nt_effect [OF assms(1)]
  have "names g' = names g \<or> names g' = names g @ [n]" by (auto split: if_splits)
  then show ?thesis
  proof
    assume e: "names g' = names g"
    then have "length (g_nts g') = length (g_nts g)" by (metis length_map)
    with e assms(2) show ?thesis by (simp add: uniq_inv_def)
  next
    assume e: "names g' = names g @ [n]"
    then have "length (g_nts g') = Suc (length (g_nts g))"
      by (metis length_append_singleton length_map)
    with e assms(2,3) show ?thesis
      by (auto simp: uniq_inv_def generated_def intro: less_SucI)
  qed
qed

lemma gen_between_mono:
  "gen_between c g1 g2 n \<Longrightarrow> length (g_nts g0) \<le> length (g_nts g1) \<Longrightarrow>
   length (g_nts g2) \<le> length (g_nts g3) \<Longrightarrow> gen_between c g0 g3 n"
  unfolding gen_between_def generated_def
  by (metis le_trans less_le_trans)

lemma extended_refl: "uniq_inv c g \<Longrightarrow> extended c g g"
  by (auto simp: extended_def appended_def)

lemma extended_trans:
  assumes "extended c g0 g1" and "extended c g1 g2"
  shows "extended c g0 g2"
proof -
  from assms obtain rs1 rs2 where
    a: "appended c g0 g1 rs1" "\<forall>r \<in> set rs1. gen_between c g0 g1 (fst r)" and
    b: "appended c g1 g2 rs2" "\<forall>r \<in> set rs2. gen_between c g1 g2 (fst r)"
    by (auto simp: extended_def)
  have "appended c g0 g2 (rs1 @ rs2)" using a(1) b(1) by (auto simp: appended_def)
  moreover have "\<forall>r \<in> set (rs1 @ rs2). gen_between c g0 g2 (fst r)"
    using a b by (auto simp: appended_def intro: gen_between_mono)
  ultimately show ?thesis unfolding extended_def by blast
qed

lemma extended_same_nts:
  "uniq_inv c g \<Longrightarrow> g_nts g' = g_nts g \<Longrightarrow> g_rules g' = g_rules g \<Longrightarrow> extended c g g'"
  by (auto simp: extended_def appended_def uniq_inv_def)

lemma aux_seq:
  assumes IH: "\<And>x g s g'. x \<in> set xs \<Longrightarrow> translate_node c x g = Some (s, g') \<Longrightarrow> uniq_inv c g \<Longrightarrow>
                plain_node c x \<Longrightarrow> node_sym c x s \<and> extended c g g'"
  shows "translate_seq c xs g = Some (syms, g') \<Longrightarrow> uniq_inv c g \<Longrightarrow> list_all (plain_node c) xs \<Longrightarrow>
         list_all2 (node_sym c) xs syms \<and> extended c g g'"
  using IH
proof (induction xs arbitrary: g syms g')
  case Nil
  then show ?case by (simp add: extended_refl)
next
  case (Cons x xs)
  from Cons.prems(1) obtain s g1 ss where
    a: "translate_node c x g = Some (s, g1)" and
    b: "translate_seq c xs g1 = Some (ss, g')" and
    c: "syms = s # ss"
    by (auto split: bind_splits)
  from Cons.prems(4) [OF _ a Cons.prems(2)] Cons.prems(3)
  have 1: "node_sym c x s" "extended c g g1" by auto
  then have inv1: "uniq_inv c g1" by (auto simp: extended_def appended_def)
  have 2: "list_all2 (node_sym c) xs ss \<and> extended c g1 g'"
    by (rule Cons.IH [OF b inv1]) (use Cons.prems in auto)
  with 1 c show ?case by (auto intro: extended_trans)
qed

lemma g_rule_appended:
  assumes "uniq_inv c g"
  shows "appended c g (g_rule n syms t g) [(n, syms)]"
    and "length (g_nts (g_rule n syms t g)) = length (g_nts g)"
proof -
  have e: "names (g_rule n syms t g) = names g" "productions (g_rule n syms t g) = productions g @ [(n, syms)]"
    using g_rule_effect [of n syms t g] by auto
  from e(1) show l: "length (g_nts (g_rule n syms t g)) = length (g_nts g)" by (metis length_map)
  from assms e l show "appended c g (g_rule n syms t g) [(n, syms)]"
    by (simp add: appended_def uniq_inv_def)
qed

lemma not_generated_above:
  "gen_between c g g' m \<Longrightarrow> \<forall>k \<ge> length (g_nts g). n \<noteq> cfg_uniq c @ decimal k \<Longrightarrow> m \<noteq> n"
  by (auto simp: gen_between_def generated_def)

lemma aux_alts:
  assumes IH: "\<And>sq g syms g'. sq \<in> set ss \<Longrightarrow> translate_seq c (seq_nodes sq) g = Some (syms, g') \<Longrightarrow>
                uniq_inv c g \<Longrightarrow> plain_seq c sq \<Longrightarrow>
                list_all2 (node_sym c) (seq_nodes sq) syms \<and> extended c g g'"
  shows "alternatives c n ss g = Some g' \<Longrightarrow> uniq_inv c g \<Longrightarrow> list_all (plain_seq c) ss \<Longrightarrow>
         \<forall>k \<ge> length (g_nts g). n \<noteq> cfg_uniq c @ decimal k \<Longrightarrow> alternatives_added c n ss g g'"
  using IH
proof (induction ss arbitrary: g g')
  case Nil
  then show ?case by (auto simp: alternatives_added_def appended_def)
next
  case (Cons sq ss)
  obtain xs t where sq: "sq = E_Seq xs t" by (cases sq) auto
  from Cons.prems(1) sq obtain syms g1 where
    a: "translate_seq c xs g = Some (syms, g1)" and
    b: "alternatives c n ss (g_rule n syms None g1) = Some g'"
    by (auto split: bind_splits)
  from Cons.prems(5) [of sq g syms g1] a sq Cons.prems(2,3)
  have 1: "list_all2 (node_sym c) xs syms" "extended c g g1" by auto
  then obtain rs1 where rs1: "appended c g g1 rs1" "\<forall>r \<in> set rs1. gen_between c g g1 (fst r)"
    by (auto simp: extended_def)
  then have inv1: "uniq_inv c g1" and len1: "length (g_nts g) \<le> length (g_nts g1)"
    by (auto simp: appended_def)
  let ?g2 = "g_rule n syms None g1"
  note r = g_rule_appended [OF inv1, of n syms None]
  from r(1) have inv2: "uniq_inv c ?g2" by (simp add: appended_def)
  have above2: "\<forall>k \<ge> length (g_nts ?g2). n \<noteq> cfg_uniq c @ decimal k"
    using Cons.prems(4) len1 r(2) by auto
  have "alternatives_added c n ss ?g2 g'"
  proof (rule Cons.IH [OF b inv2 _ above2])
    show "list_all (plain_seq c) ss" using Cons.prems(3) by simp
  next
    fix sqa ga symsa ga'
    assume h: "sqa \<in> set ss" "translate_seq c (seq_nodes sqa) ga = Some (symsa, ga')"
      "uniq_inv c ga" "plain_seq c sqa"
    show "list_all2 (node_sym c) (seq_nodes sqa) symsa \<and> extended c ga ga'"
      by (rule Cons.prems(5) [OF _ h(2,3,4)]) (simp add: h(1))
  qed
  then obtain rs3 symss where
    rs3: "appended c ?g2 g' rs3" "filter (\<lambda>r. fst r = n) rs3 = map (Pair n) symss"
      "list_all2 (seq_syms c) ss symss"
      "\<forall>r \<in> set rs3. fst r = n \<or> gen_between c ?g2 g' (fst r)"
    by (auto simp: alternatives_added_def)
  have len3: "length (g_nts ?g2) \<le> length (g_nts g')" using rs3(1) by (simp add: appended_def)
  have app: "appended c g g' (rs1 @ [(n, syms)] @ rs3)"
    using rs1(1) r(1) rs3(1) by (auto simp: appended_def)
  have f1: "filter (\<lambda>r. fst r = n) rs1 = []"
    using rs1(2) Cons.prems(4) by (auto simp: filter_empty_conv dest: not_generated_above)
  have filt: "filter (\<lambda>r. fst r = n) (rs1 @ [(n, syms)] @ rs3) = map (Pair n) (syms # symss)"
    using f1 rs3(2) by simp
  have corr: "list_all2 (seq_syms c) (sq # ss) (syms # symss)"
    using 1(1) rs3(3) sq by (simp add: seq_syms_def)
  have gens: "\<forall>r \<in> set (rs1 @ [(n, syms)] @ rs3). fst r = n \<or> gen_between c g g' (fst r)"
  proof
    fix r assume "r \<in> set (rs1 @ [(n, syms)] @ rs3)"
    then consider "r \<in> set rs1" | "r = (n, syms)" | "r \<in> set rs3" by auto
    then show "fst r = n \<or> gen_between c g g' (fst r)"
    proof cases
      case 1
      with rs1(2) have "gen_between c g g1 (fst r)" by blast
      then have "gen_between c g g' (fst r)"
        by (rule gen_between_mono) (use len3 r(2) in auto)
      then show ?thesis ..
    next
      case 2
      then show ?thesis by simp
    next
      case 3
      with rs3(4) have "fst r = n \<or> gen_between c ?g2 g' (fst r)" by blast
      then show ?thesis
      proof
        assume "gen_between c ?g2 g' (fst r)"
        then have "gen_between c g g' (fst r)"
          by (rule gen_between_mono) (use len1 r(2) in auto)
        then show ?thesis ..
      qed simp
    qed
  qed
  from app filt corr gens show ?case unfolding alternatives_added_def by blast
qed

lemma decimal_above:
  "\<forall>k \<ge> Suc m. cfg_uniq c @ decimal m \<noteq> cfg_uniq c @ decimal k"
  by (auto dest: decimal_inj)

lemma opt_step:
  assumes IH: "\<And>sq g syms g'. sq \<in> set ss \<Longrightarrow> translate_seq c (seq_nodes sq) g = Some (syms, g') \<Longrightarrow>
                uniq_inv c g \<Longrightarrow> plain_seq c sq \<Longrightarrow>
                list_all2 (node_sym c) (seq_nodes sq) syms \<and> extended c g g'"
    and tr: "translate_node c (E_Opt ss) g = Some (s, g')"
    and inv: "uniq_inv c g"
    and plain: "list_all (plain_seq c) ss"
  shows "s = NT_sym (uniq_name c g) \<and> uniq_name c g \<notin> set (names g) \<and>
         (\<exists>rs symss. appended c g g' rs
            \<and> filter (\<lambda>r. fst r = uniq_name c g) rs = (uniq_name c g, []) # map (Pair (uniq_name c g)) symss
            \<and> list_all2 (seq_syms c) ss symss
            \<and> (\<forall>r \<in> set rs. gen_between c g g' (fst r)))"
proof -
  from tr obtain n g1 where
    a: "g_nt_uniq c g = Some (n, g1)" and
    b: "alternatives c n ss (g_rule n [] None g1) = Some g'" and
    s: "s = NT_sym n"
    by (auto split: bind_splits)
  from g_nt_uniq_effect [OF a inv]
  have n: "n = uniq_name c g" and fresh: "n \<notin> set (names g)" and
    names1: "names g1 = names g @ [n]" and rules1: "g_rules g1 = g_rules g" and inv1: "uniq_inv c g1"
    by auto
  from names1 have len1: "length (g_nts g1) = Suc (length (g_nts g))"
    by (metis length_append_singleton length_map)
  let ?g2 = "g_rule n [] None g1"
  note r = g_rule_appended [OF inv1, of n "[]" None]
  from r(1) have inv2: "uniq_inv c ?g2" by (simp add: appended_def)
  have len2: "length (g_nts ?g2) = Suc (length (g_nts g))" using r(2) len1 by simp
  have above: "\<forall>k \<ge> length (g_nts ?g2). n \<noteq> cfg_uniq c @ decimal k"
    unfolding len2 unfolding n uniq_name_def by (rule decimal_above)
  have "alternatives_added c n ss ?g2 g'" by (rule aux_alts [OF IH b inv2 plain above])
  then obtain rs symss where
    rs: "appended c ?g2 g' rs" "filter (\<lambda>r. fst r = n) rs = map (Pair n) symss"
      "list_all2 (seq_syms c) ss symss"
      "\<forall>r \<in> set rs. fst r = n \<or> gen_between c ?g2 g' (fst r)"
    by (auto simp: alternatives_added_def)
  have len': "Suc (length (g_nts g)) \<le> length (g_nts g')"
    using rs(1) len2 by (simp add: appended_def)
  have app: "appended c g g' ((n, []) # rs)"
    using rs(1) r(1) rules1 len' by (auto simp: appended_def)
  have genn: "gen_between c g g' n"
    unfolding gen_between_def generated_def n uniq_name_def using len' by auto
  have gens: "\<forall>r \<in> set ((n, []) # rs). gen_between c g g' (fst r)"
  proof
    fix x assume "x \<in> set ((n, []) # rs)"
    then consider "fst x = n" | "x \<in> set rs" "fst x \<noteq> n" by auto
    then show "gen_between c g g' (fst x)"
    proof cases
      case 1
      with genn show ?thesis by simp
    next
      case 2
      with rs(4) have "gen_between c ?g2 g' (fst x)" by blast
      then show ?thesis by (rule gen_between_mono) (simp_all add: len2)
    qed
  qed
  from app rs(2,3) gens have
    "\<exists>rs symss. appended c g g' rs
        \<and> filter (\<lambda>r. fst r = n) rs = (n, []) # map (Pair n) symss
        \<and> list_all2 (seq_syms c) ss symss
        \<and> (\<forall>r \<in> set rs. gen_between c g g' (fst r))"
    by (intro exI [of _ "(n, []) # rs"] exI [of _ symss]) simp
  with s fresh show ?thesis unfolding n by blast
qed

lemma appended_trans:
  "appended c g0 g1 r1 \<Longrightarrow> appended c g1 g2 r2 \<Longrightarrow> appended c g0 g2 (r1 @ r2)"
  by (auto simp: appended_def)

lemma appended_same:
  "uniq_inv c g \<Longrightarrow> g_nts g' = g_nts g \<Longrightarrow> g_rules g' = g_rules g \<Longrightarrow> appended c g g' []"
  by (auto simp: appended_def uniq_inv_def)

lemma some_step:
  assumes IH: "\<And>sq g syms g'. sq \<in> set ss \<Longrightarrow> translate_seq c (seq_nodes sq) g = Some (syms, g') \<Longrightarrow>
                uniq_inv c g \<Longrightarrow> plain_seq c sq \<Longrightarrow>
                list_all2 (node_sym c) (seq_nodes sq) syms \<and> extended c g g'"
    and tr: "translate_node c (E_Some ss) g = Some (s, g')"
    and inv: "uniq_inv c g"
    and plain: "list_all (plain_seq c) ss"
  defines "U2 \<equiv> uniq_name c g" and "U1 \<equiv> cfg_uniq c @ decimal (Suc (length (g_nts g)))"
  shows "s = NT_sym U2 \<and> U2 \<notin> set (names g) \<and> U1 \<notin> set (names g) \<and> U1 \<noteq> U2 \<and>
         (\<exists>rs symss. appended c g g' rs
            \<and> filter (\<lambda>r. fst r = U1) rs = map (Pair U1) symss
            \<and> list_all2 (seq_syms c) ss symss
            \<and> filter (\<lambda>r. fst r = U2) rs =
                 [(U2, [NT_sym U1]), (U2, [NT_sym U2, NT_sym U1])]
                 @ (if cfg_error c then [(U2, [Token_sym []]), (U2, [NT_sym U2, Token_sym []])] else [])
            \<and> (\<forall>r \<in> set rs. gen_between c g g' (fst r)))"
proof -
  define tail where "tail = [(U2, [NT_sym U1]), (U2, [NT_sym U2, NT_sym U1])]
                 @ (if cfg_error c then [(U2, [Token_sym []]), (U2, [NT_sym U2, Token_sym []])] else [])"
  from tr obtain n g1 n1 g2 g3 where
    a: "g_nt_uniq c g = Some (n, g1)" and
    a1: "g_nt_uniq c g1 = Some (n1, g2)" and
    b: "alternatives c n1 ss g2 = Some g3" and
    s: "s = NT_sym n" and
    fin: "if cfg_error c
          then \<exists>g5. g_token c [] False (g_rule n [NT_sym n, NT_sym n1] None (g_rule n [NT_sym n1] None g3)) = Some g5
                 \<and> g' = g_rule n [NT_sym n, Token_sym []] None (g_rule n [Token_sym []] None g5)
          else g' = g_rule n [NT_sym n, NT_sym n1] None (g_rule n [NT_sym n1] None g3)"
    by (auto simp: Let_def split: bind_splits if_splits)
  from g_nt_uniq_effect [OF a inv]
  have n: "n = U2" and fresh: "n \<notin> set (names g)" and
    names1: "names g1 = names g @ [n]" and rules1: "g_rules g1 = g_rules g" and inv1: "uniq_inv c g1"
    by (auto simp: U2_def)
  from names1 have len1: "length (g_nts g1) = Suc (length (g_nts g))"
    by (metis length_append_singleton length_map)
  from g_nt_uniq_effect [OF a1 inv1]
  have n1': "n1 = uniq_name c g1" and fresh1: "n1 \<notin> set (names g1)" and
    names2: "names g2 = names g1 @ [n1]" and rules2: "g_rules g2 = g_rules g1" and inv2: "uniq_inv c g2"
    by auto
  from n1' len1 have n1: "n1 = U1" by (simp add: uniq_name_def U1_def)
  from names2 len1 have len2: "length (g_nts g2) = Suc (Suc (length (g_nts g)))"
    by (metis length_append_singleton length_map)
  have ne: "U1 \<noteq> U2" by (auto simp: U1_def U2_def uniq_name_def dest: decimal_inj)
  have above1: "\<forall>k \<ge> length (g_nts g2). n1 \<noteq> cfg_uniq c @ decimal k"
    unfolding len2 unfolding n1 U1_def by (rule decimal_above)
  have above2: "\<forall>k \<ge> length (g_nts g2). n \<noteq> cfg_uniq c @ decimal k"
    unfolding len2 unfolding n U2_def uniq_name_def using decimal_above [of "length (g_nts g)" c] by auto
  have "alternatives_added c n1 ss g2 g3" by (rule aux_alts [OF IH b inv2 plain above1])
  then obtain rs symss where
    rs: "appended c g2 g3 rs" "filter (\<lambda>r. fst r = n1) rs = map (Pair n1) symss"
      "list_all2 (seq_syms c) ss symss"
      "\<forall>r \<in> set rs. fst r = n1 \<or> gen_between c g2 g3 (fst r)"
    by (auto simp: alternatives_added_def)
  from rs(1) have inv3: "uniq_inv c g3" and len3: "length (g_nts g2) \<le> length (g_nts g3)"
    by (auto simp: appended_def)
  have tail: "appended c g3 g' tail \<and> length (g_nts g') = length (g_nts g3)"
  proof (cases "cfg_error c")
    case False
    let ?ga = "g_rule n [NT_sym n1] None g3"
    note ra = g_rule_appended [OF inv3, of n "[NT_sym n1]" None]
    from ra(1) have inva: "uniq_inv c ?ga" by (simp add: appended_def)
    note rb = g_rule_appended [OF inva, of n "[NT_sym n, NT_sym n1]" None]
    from False fin have g': "g' = g_rule n [NT_sym n, NT_sym n1] None ?ga" by simp
    from appended_trans [OF ra(1) rb(1)] ra(2) rb(2) False show ?thesis
      by (simp add: g' tail_def n n1)
  next
    case True
    let ?ga = "g_rule n [NT_sym n1] None g3"
    note ra = g_rule_appended [OF inv3, of n "[NT_sym n1]" None]
    from ra(1) have inva: "uniq_inv c ?ga" by (simp add: appended_def)
    let ?gb = "g_rule n [NT_sym n, NT_sym n1] None ?ga"
    note rb = g_rule_appended [OF inva, of n "[NT_sym n, NT_sym n1]" None]
    from rb(1) have invb: "uniq_inv c ?gb" by (simp add: appended_def)
    from True fin obtain g5 where
      g5: "g_token c [] False ?gb = Some g5" and
      g': "g' = g_rule n [NT_sym n, Token_sym []] None (g_rule n [Token_sym []] None g5)"
      by auto
    from g_token_same [OF g5] have same: "g_nts g5 = g_nts ?gb" "g_rules g5 = g_rules ?gb" by auto
    note r5 = appended_same [OF invb same]
    from r5 have inv5: "uniq_inv c g5" by (simp add: appended_def)
    let ?gc = "g_rule n [Token_sym []] None g5"
    note rc = g_rule_appended [OF inv5, of n "[Token_sym []]" None]
    from rc(1) have invc: "uniq_inv c ?gc" by (simp add: appended_def)
    note rd = g_rule_appended [OF invc, of n "[NT_sym n, Token_sym []]" None]
    from appended_trans [OF appended_trans [OF appended_trans [OF appended_trans [OF ra(1) rb(1)] r5] rc(1)] rd(1)]
      ra(2) rb(2) rc(2) rd(2) same(1) True
    show ?thesis by (simp add: g' tail_def n n1)
  qed
  have len': "Suc (Suc (length (g_nts g))) \<le> length (g_nts g')"
    using tail len3 len2 by simp
  have app2: "appended c g2 g' (rs @ tail)" using rs(1) tail by (auto intro: appended_trans)
  have app: "appended c g g' (rs @ tail)"
    using app2 rules1 rules2 len' by (auto simp: appended_def)
  have f_n_rs: "filter (\<lambda>r. fst r = U2) rs = []"
  proof -
    have "fst r \<noteq> U2" if "r \<in> set rs" for r
    proof -
      from rs(4) that have "fst r = n1 \<or> gen_between c g2 g3 (fst r)" by blast
      then show ?thesis
      proof
        assume "fst r = n1" with ne n1 show ?thesis by simp
      next
        assume "gen_between c g2 g3 (fst r)"
        from not_generated_above [OF this above2] n show ?thesis by simp
      qed
    qed
    then show ?thesis by (auto simp: filter_empty_conv)
  qed
  have f1: "filter (\<lambda>r. fst r = U1) (rs @ tail) = map (Pair U1) symss"
    using rs(2) ne by (auto simp: tail_def n1)
  have f2: "filter (\<lambda>r. fst r = U2) (rs @ tail) = tail"
    using f_n_rs by (auto simp: tail_def)
  have gen2: "gen_between c g g' U2"
    unfolding gen_between_def generated_def U2_def uniq_name_def using len' by auto
  have gen1: "gen_between c g g' U1"
    unfolding gen_between_def generated_def U1_def using len'
    by (intro exI [of _ "Suc (length (g_nts g))"]) simp
  have gens: "\<forall>r \<in> set (rs @ tail). gen_between c g g' (fst r)"
  proof
    fix x assume "x \<in> set (rs @ tail)"
    then consider "x \<in> set tail" | "x \<in> set rs" "fst x = n1" | "x \<in> set rs" "gen_between c g2 g3 (fst x)"
      using rs(4) by auto
    then show "gen_between c g g' (fst x)"
    proof cases
      case 1
      then have "fst x = U2" by (auto simp: tail_def split: if_splits)
      with gen2 show ?thesis by simp
    next
      case 2
      with gen1 n1 show ?thesis by simp
    next
      case 3
      from 3(2) show ?thesis by (rule gen_between_mono) (use tail len2 in simp_all)
    qed
  qed
  have U1_fresh: "U1 \<notin> set (names g)" using fresh1 n1 names1 by simp
  from app f1 rs(3) f2 gens have
    "\<exists>rs symss. appended c g g' rs
            \<and> filter (\<lambda>r. fst r = U1) rs = map (Pair U1) symss
            \<and> list_all2 (seq_syms c) ss symss
            \<and> filter (\<lambda>r. fst r = U2) rs = tail
            \<and> (\<forall>r \<in> set rs. gen_between c g g' (fst r))"
    by blast
  with s n fresh U1_fresh ne show ?thesis unfolding tail_def by simp
qed

lemma extended_of_appended:
  "appended c g g' rs \<Longrightarrow> \<forall>r \<in> set rs. gen_between c g g' (fst r) \<Longrightarrow> extended c g g'"
  unfolding extended_def by blast

lemma translate_props:
  shows "translate_node c x g = Some (s, g') \<Longrightarrow> uniq_inv c g \<Longrightarrow> plain_node c x \<Longrightarrow>
         node_sym c x s \<and> extended c g g'"
    and "translate_seq c (seq_nodes sq) g = Some (syms, g') \<Longrightarrow> uniq_inv c g \<Longrightarrow> plain_seq c sq \<Longrightarrow>
         list_all2 (node_sym c) (seq_nodes sq) syms \<and> extended c g g'"
proof (induction x and sq arbitrary: g s g' and g syms g')
  case (E_Lit n)
  then show ?case by (auto split: bind_splits dest!: g_lit_same intro: extended_same_nts)
next
  case (E_Token n)
  then show ?case by (auto split: bind_splits dest!: g_token_same intro: extended_same_nts)
next
  case (E_NT n)
  from E_NT.prems(1) have a: "g_nt c n g = Some g'" and s: "s = NT_sym n"
    by (auto split: bind_splits)
  from E_NT.prems(3) have "\<not> prefix (cfg_uniq c) n" by simp
  from g_nt_plain_inv [OF a E_NT.prems(2) this] have inv': "uniq_inv c g'" .
  from g_nt_effect [OF a] have r: "g_rules g' = g_rules g"
    and "names g' = names g \<or> names g' = names g @ [n]"
    by (auto split: if_splits)
  then have "length (names g') = length (names g) \<or> length (names g') = length (names g @ [n])"
    by metis
  then have "length (g_nts g) \<le> length (g_nts g')" by auto
  with inv' r have "appended c g g' []" by (simp add: appended_def)
  then have "extended c g g'" by (rule extended_of_appended) simp
  with s show ?case by simp
next
  case (E_Opt ss)
  from E_Opt.prems(3) have plain: "list_all (plain_seq c) ss" by simp
  from opt_step [OF E_Opt.IH E_Opt.prems(1,2) plain]
  show ?case by (auto simp: uniq_name_def intro: extended_of_appended)
next
  case (E_Some ss)
  from E_Some.prems(3) have plain: "list_all (plain_seq c) ss" by simp
  from some_step [OF E_Some.IH E_Some.prems(1,2) plain]
  show ?case by (auto simp: uniq_name_def intro: extended_of_appended)
next
  case (E_Seq xs t)
  from E_Seq.prems have "translate_seq c xs g = Some (syms, g')" "list_all (plain_node c) xs"
    by simp_all
  from aux_seq [OF E_Seq.IH this(1) E_Seq.prems(2) this(2)] show ?case by simp
qed

end
